theory Spec2Isabelle
  imports Main
begin

section \<open>Data model\<close>

text \<open>
  The exceptions that occur in \<^verbatim>\<open>main.py\<close>. Every one of them is a subclass of Python's
  \<^verbatim>\<open>Exception\<close>, so an \<^verbatim>\<open>except Exception\<close> handler catches all four.
  \<^item> \<open>HTTPException status detail\<close> is what \<^verbatim>\<open>Database\<close> and \<^verbatim>\<open>LLMService\<close> raise after
    catching an exception;
  \<^item> \<open>KeyError k\<close> is raised by a subscript \<^verbatim>\<open>item[k]\<close> on a dict without the key \<open>k\<close>;
  \<^item> \<open>AttributeError a\<close> is raised by \<^verbatim>\<open>v.a\<close> on a value without the attribute \<open>a\<close>, as
    \<^verbatim>\<open>None.lower\<close>;
  \<^item> \<open>ClientError msg\<close> stands for whatever the Supabase or Groq client raises.
\<close>

datatype exn =
  HTTPException nat string | KeyError string | AttributeError string | ClientError string

text \<open>
  The value of a column as the client returns it: \<^verbatim>\<open>None\<close> for SQL's NULL, a Python
  \<^verbatim>\<open>str\<close> for a text, or any other value (a number, a boolean, a list, a dict), which
  is given here by the text that \<^verbatim>\<open>str()\<close> yields for it.
\<close>

datatype jval = JNull | JStr string | JOther string

text \<open>
  A row of the \<^verbatim>\<open>documents\<close> table as the client returns it: a JSON object, here an
  association list from column names to values. Which columns a row of \<^verbatim>\<open>select("*")\<close>
  has is up to the table.
\<close>

type_synonym row = "(string \<times> jval) list"

text \<open>
  The state dict of a run. \<^verbatim>\<open>run\<close> and \<^verbatim>\<open>get_state\<close> create it with exactly these five keys
  and no stage adds or removes a key, so it is a record.
\<close>

record wstate =
  user_input :: string
  user_preferences :: string
  retrieved_items :: "row list"
  filtered_recommendations :: string
  final_response :: string

text \<open>
  The outside world. The language model and the document store are not part of the
  program: they are parameters. Each call takes the state of the world \<open>'w\<close> and returns
  a result or an exception together with the new state of the world, so a service may
  answer the same request differently at different times.
  \<^item> \<open>llm_invoke sys usr\<close>: \<^verbatim>\<open>self.llm.invoke([SystemMessage(sys), HumanMessage(usr)])\<close>,
    returning the content of the reply;
  \<^item> \<open>select_genre\<close>: \<^verbatim>\<open>table("documents").select("genre").execute()\<close>, returning
    \<^verbatim>\<open>response.data\<close> (a missing \<^verbatim>\<open>data\<close> is falsy like the empty list, and is the empty
    list here);
  \<^item> \<open>select_all_ilike g\<close>:
    \<^verbatim>\<open>table("documents").select("*").filter("genre", "ilike", g).execute()\<close>, returning
    \<^verbatim>\<open>docs.data\<close> (likewise);
  \<^item> \<open>set_slot xs x\<close>: the index of the slot that the element \<open>x\<close> has in the hash table
    of the Python set into which the elements \<open>xs\<close> were inserted in this order. It
    depends on the hashes of the strings, which differ from one interpreter process to
    the next, on the size of the table and on the collisions.
\<close>

record 'w services =
  llm_invoke :: "string \<Rightarrow> string \<Rightarrow> 'w \<Rightarrow> (exn + string) \<times> 'w"
  select_genre :: "'w \<Rightarrow> (exn + row list) \<times> 'w"
  select_all_ilike :: "string \<Rightarrow> 'w \<Rightarrow> (exn + row list) \<times> 'w"
  set_slot :: "string list \<Rightarrow> string \<Rightarrow> nat"

section \<open>Strings\<close>

text \<open>
  A \<open>string\<close> is a list of 8-bit characters: it stands for a Python \<^verbatim>\<open>str\<close> whose code
  points are below 256, each \<open>char\<close> being one code point. On these code points
  \<^verbatim>\<open>str.lower()\<close> maps the capital letters A to Z (65 to 90) and the capital letters
  U+00C0 to U+00DE without the multiplication sign U+00D7 (192 to 222 without 215) to
  the letter 32 code points further, and leaves every other code point as it is.
\<close>

definition is_upper :: "char \<Rightarrow> bool" where
  "is_upper c =
     ((65 \<le> (of_char c :: nat) \<and> (of_char c :: nat) \<le> 90)
      \<or> (192 \<le> (of_char c :: nat) \<and> (of_char c :: nat) \<le> 222 \<and> (of_char c :: nat) \<noteq> 215))"

definition lower_char :: "char \<Rightarrow> char" where
  "lower_char c = (if is_upper c then char_of ((of_char c :: nat) + 32) else c)"

definition lower :: "string \<Rightarrow> string" where
  "lower s = map lower_char s"

text \<open>
  The whitespace of \<^verbatim>\<open>str.split()\<close> without arguments, on code points below 256: tab,
  line feed, vertical tab, form feed, carriage return (9 to 13), the four separators
  0x1C to 0x1F and the space (28 to 32), the next line control U+0085 (133) and the
  no-break space U+00A0 (160).
\<close>

definition is_space :: "char \<Rightarrow> bool" where
  "is_space c =
     ((9 \<le> (of_char c :: nat) \<and> (of_char c :: nat) \<le> 13)
      \<or> (28 \<le> (of_char c :: nat) \<and> (of_char c :: nat) \<le> 32)
      \<or> (of_char c :: nat) = 133 \<or> (of_char c :: nat) = 160)"

text \<open>\<open>split_aux s cur\<close> scans \<open>s\<close> with the word read so far in \<open>cur\<close>.\<close>

fun split_aux :: "string \<Rightarrow> string \<Rightarrow> string list" where
  "split_aux [] cur = (if cur = [] then [] else [cur])"
| "split_aux (c # cs) cur =
     (if is_space c then (if cur = [] then split_aux cs [] else cur # split_aux cs [])
      else split_aux cs (cur @ [c]))"

definition split :: "string \<Rightarrow> string list" where
  "split s = split_aux s []"

text \<open>\<^verbatim>\<open>sep.join(xs)\<close>.\<close>

fun join :: "string \<Rightarrow> string list \<Rightarrow> string" where
  "join sep [] = []"
| "join sep [x] = x"
| "join sep (x # y # ys) = x @ sep @ join sep (y # ys)"

text \<open>
  \<^verbatim>\<open>list({... for item in data})\<close> for the elements \<open>xs\<close> that the comprehension yields in
  this order: the elements of the set, each once, in the order of iteration, which is
  the order of their slots in the hash table.
\<close>

definition list_of_set :: "(string list \<Rightarrow> string \<Rightarrow> nat) \<Rightarrow> string list \<Rightarrow> string list" where
  "list_of_set slot xs = sort_key (slot xs) (remdups xs)"

text \<open>\<^verbatim>\<open>item[k]\<close> on a dict.\<close>

definition getitem :: "row \<Rightarrow> string \<Rightarrow> exn + jval" where
  "getitem item k = (case map_of item k of None \<Rightarrow> Inl (KeyError k) | Some v \<Rightarrow> Inr v)"

text \<open>\<^verbatim>\<open>v.lower()\<close> on a column value: only a \<^verbatim>\<open>str\<close> has the method \<^verbatim>\<open>lower\<close>.\<close>

definition value_lower :: "jval \<Rightarrow> exn + string" where
  "value_lower v =
     (case v of
        JNull \<Rightarrow> Inl (AttributeError ''lower'')
      | JStr s \<Rightarrow> Inr (lower s)
      | JOther s \<Rightarrow> Inl (AttributeError ''lower''))"

text \<open>
  The elements of the comprehension \<^verbatim>\<open>item["genre"].lower() for item in response.data\<close> in
  the order of \<^verbatim>\<open>response.data\<close>; the first item that raises ends it.
\<close>

fun genre_labels :: "row list \<Rightarrow> exn + string list" where
  "genre_labels [] = Inr []"
| "genre_labels (item # items) =
     (case getitem item ''genre'' of
        Inl e \<Rightarrow> Inl e
      | Inr v \<Rightarrow>
          (case value_lower v of
             Inl e \<Rightarrow> Inl e
           | Inr l \<Rightarrow> (case genre_labels items of Inl e \<Rightarrow> Inl e | Inr ls \<Rightarrow> Inr (l # ls))))"

section \<open>Database\<close>

text \<open>
  \<^verbatim>\<open>Database.get_available_categories\<close>: the \<^verbatim>\<open>try\<close> block holds the query and the
  comprehension, and the handler turns every exception into the status 500.
\<close>

definition get_available_categories :: "'w services \<Rightarrow> 'w \<Rightarrow> (exn + string list) \<times> 'w" where
  "get_available_categories svc w =
     (case select_genre svc w of
        (Inl e, w') \<Rightarrow> (Inl (HTTPException 500 ''Error fetching categories.''), w')
      | (Inr data, w') \<Rightarrow>
          (if data \<noteq> []
           then (case genre_labels data of
                   Inl e \<Rightarrow> (Inl (HTTPException 500 ''Error fetching categories.''), w')
                 | Inr ls \<Rightarrow> (Inr (list_of_set (set_slot svc) ls), w'))
           else (Inr [], w')))"

text \<open>
  The loop of \<^verbatim>\<open>Database.query_documents\<close>: \<open>all_data\<close> is the accumulator, an exception
  of the client leaves the loop.
\<close>

fun query_loop :: "'w services \<Rightarrow> string list \<Rightarrow> row list \<Rightarrow> 'w \<Rightarrow> (exn + row list) \<times> 'w" where
  "query_loop svc [] all_data w = (Inr all_data, w)"
| "query_loop svc (genre # genres) all_data w =
     (case select_all_ilike svc genre w of
        (Inl e, w') \<Rightarrow> (Inl e, w')
      | (Inr data, w') \<Rightarrow>
          query_loop svc genres (if data \<noteq> [] then all_data @ data else all_data) w')"

definition query_documents :: "'w services \<Rightarrow> string list \<Rightarrow> 'w \<Rightarrow> (exn + row list) \<times> 'w" where
  "query_documents svc genres w =
     (case query_loop svc genres [] w of
        (Inl e, w') \<Rightarrow> (Inl (HTTPException 500 ''Database query error.''), w')
      | (Inr all_data, w') \<Rightarrow> (Inr all_data, w'))"

section \<open>LLM service\<close>

text \<open>\<^verbatim>\<open>LLMService.get_response\<close>.\<close>

definition get_response :: "'w services \<Rightarrow> string \<Rightarrow> string \<Rightarrow> 'w \<Rightarrow> (exn + string) \<times> 'w" where
  "get_response svc system_prompt usr w =
     (case llm_invoke svc system_prompt usr w of
        (Inl e, w') \<Rightarrow> (Inl (HTTPException 500 ''LLM processing error.''), w')
      | (Inr content, w') \<Rightarrow> (Inr content, w'))"

section \<open>Recommendation workflow\<close>

subsection \<open>The graph\<close>

text \<open>
  The four nodes that \<^verbatim>\<open>_build_workflow\<close> adds. \<^verbatim>\<open>END\<close> is not a node: a step that leads to
  \<^verbatim>\<open>END\<close> has no next node.
\<close>

datatype node = User_Interaction | Retrieval | Filtering | Final_Response

definition entry_point :: node where
  "entry_point = User_Interaction"

text \<open>
  The edges of \<^verbatim>\<open>_build_workflow\<close>, evaluated on the state a node returned: the two
  conditional edges with their lambdas (a string or a list is truthy when it is not
  empty; each path map is the identity), and the two plain edges. \<open>None\<close> is \<^verbatim>\<open>END\<close>.
\<close>

fun next_node :: "node \<Rightarrow> wstate \<Rightarrow> node option" where
  "next_node User_Interaction state =
     (if user_preferences state \<noteq> [] then Some Retrieval else Some Final_Response)"
| "next_node Retrieval state =
     (if retrieved_items state \<noteq> [] then Some Filtering else Some Final_Response)"
| "next_node Filtering state = Some Final_Response"
| "next_node Final_Response state = None"

subsection \<open>The prompts\<close>

definition user_interaction_prompt :: string where
  \<open>user_interaction_prompt = ''You are a friendly and helpful assistant. Your ONLY job is to collect user preferences for movies and books. Return the preferences in a clear, concise sentence.  For example: "The user likes sci-fi movies and fantasy books."  Do not provide recommendations yet. Just collect preferences.''\<close>

definition filtering_prompt :: string where
  \<open>filtering_prompt = ''You are a helpful assistant that filters recommendations based on user preferences.''
     @ [CHR 0x0A] @ ''                            Return only the recommendations that closely match the user's expressed interests.''
     @ [CHR 0x0A] @ ''                            If no recommendations match the user preferences, return "No recommendations found".''\<close>

definition final_response_prompt :: string where
  "final_response_prompt = ''Format the recommendations in an engaging way.  Include titles and authors/directors where available.''"

subsection \<open>The stages\<close>

text \<open>
  Every stage with a \<^verbatim>\<open>try\<close> block is two definitions: the body of the \<^verbatim>\<open>try\<close>, which
  returns the new state or the exception that left it, and the stage, whose handler
  \<^verbatim>\<open>except Exception\<close> logs and returns the state as it was.
\<close>

definition user_interaction_try :: "'w services \<Rightarrow> wstate \<Rightarrow> 'w \<Rightarrow> (exn + wstate) \<times> 'w" where
  "user_interaction_try svc state w =
     (case get_response svc user_interaction_prompt (user_input state) w of
        (Inl e, w') \<Rightarrow> (Inl e, w')
      | (Inr r, w') \<Rightarrow> (Inr (state\<lparr>user_preferences := r\<rparr>), w'))"

definition user_interaction_agent :: "'w services \<Rightarrow> wstate \<Rightarrow> 'w \<Rightarrow> (exn + wstate) \<times> 'w" where
  "user_interaction_agent svc state w =
     (case user_interaction_try svc state w of
        (Inl e, w') \<Rightarrow> (Inr state, w')
      | (Inr state', w') \<Rightarrow> (Inr state', w'))"

text \<open>Lines 163 and 164: the categories that are words of the preference text.\<close>

definition selected_categories :: "string list \<Rightarrow> string \<Rightarrow> string list" where
  "selected_categories available_categories prefs =
     filter (\<lambda>category. category \<in> set (split (lower prefs))) available_categories"

definition retrieval_try :: "'w services \<Rightarrow> wstate \<Rightarrow> 'w \<Rightarrow> (exn + wstate) \<times> 'w" where
  "retrieval_try svc state w =
     (case get_available_categories svc w of
        (Inl e, w1) \<Rightarrow> (Inl e, w1)
      | (Inr available_categories, w1) \<Rightarrow>
          (let selected = selected_categories available_categories (user_preferences state)
           in if selected \<noteq> []
              then (case query_documents svc selected w1 of
                      (Inl e, w2) \<Rightarrow> (Inl e, w2)
                    | (Inr items, w2) \<Rightarrow> (Inr (state\<lparr>retrieved_items := items\<rparr>), w2))
              else (Inr (state\<lparr>retrieved_items := []\<rparr>), w1)))"

definition retrieval_agent :: "'w services \<Rightarrow> wstate \<Rightarrow> 'w \<Rightarrow> (exn + wstate) \<times> 'w" where
  "retrieval_agent svc state w =
     (case retrieval_try svc state w of
        (Inl e, w') \<Rightarrow> (Inr state, w')
      | (Inr state', w') \<Rightarrow> (Inr state', w'))"

text \<open>A column value in an f-string: \<^verbatim>\<open>str(v)\<close>.\<close>

definition py_str :: "jval \<Rightarrow> string" where
  "py_str v = (case v of JNull \<Rightarrow> ''None'' | JStr s \<Rightarrow> s | JOther s \<Rightarrow> s)"

text \<open>The f-string of line 178: the four subscripts are evaluated from left to right.\<close>

definition format_item :: "row \<Rightarrow> exn + string" where
  "format_item item =
     (case getitem item ''title'' of Inl e \<Rightarrow> Inl e | Inr title \<Rightarrow>
      case getitem item ''author'' of Inl e \<Rightarrow> Inl e | Inr author \<Rightarrow>
      case getitem item ''director'' of Inl e \<Rightarrow> Inl e | Inr director \<Rightarrow>
      case getitem item ''genre'' of Inl e \<Rightarrow> Inl e | Inr genre \<Rightarrow>
        Inr (''Title: '' @ py_str title @ '', Author: '' @ py_str author @ '', Director: ''
             @ py_str director @ '', Genre: '' @ py_str genre))"

text \<open>The list comprehension of line 178: the first item that raises ends it.\<close>

fun format_items :: "row list \<Rightarrow> exn + string list" where
  "format_items [] = Inr []"
| "format_items (item # items) =
     (case format_item item of
        Inl e \<Rightarrow> Inl e
      | Inr l \<Rightarrow> (case format_items items of Inl e \<Rightarrow> Inl e | Inr ls \<Rightarrow> Inr (l # ls)))"

definition filtering_try :: "'w services \<Rightarrow> wstate \<Rightarrow> string \<Rightarrow> 'w \<Rightarrow> (exn + wstate) \<times> 'w" where
  "filtering_try svc state formatted_items w =
     (case get_response svc filtering_prompt
             (''User preferences: '' @ user_preferences state @ [CHR 0x0A] @ ''Items:''
              @ [CHR 0x0A] @ formatted_items) w of
        (Inl e, w') \<Rightarrow> (Inl e, w')
      | (Inr r, w') \<Rightarrow> (Inr (state\<lparr>filtered_recommendations := r\<rparr>), w'))"

text \<open>
  \<^verbatim>\<open>filtering_agent\<close>: \<open>formatted_items\<close> is computed before the \<^verbatim>\<open>try\<close>, so an exception of
  the formatting leaves the stage.
\<close>

definition filtering_agent :: "'w services \<Rightarrow> wstate \<Rightarrow> 'w \<Rightarrow> (exn + wstate) \<times> 'w" where
  "filtering_agent svc state w =
     (case format_items (retrieved_items state) of
        Inl e \<Rightarrow> (Inl e, w)
      | Inr ls \<Rightarrow>
          (case filtering_try svc state (join [CHR 0x0A] ls) w of
             (Inl e, w') \<Rightarrow> (Inr state, w')
           | (Inr state', w') \<Rightarrow> (Inr state', w')))"

definition final_response_try :: "'w services \<Rightarrow> wstate \<Rightarrow> 'w \<Rightarrow> (exn + wstate) \<times> 'w" where
  "final_response_try svc state w =
     (case get_response svc final_response_prompt
             (''Here are the recommendations: '' @ filtered_recommendations state) w of
        (Inl e, w') \<Rightarrow> (Inl e, w')
      | (Inr r, w') \<Rightarrow> (Inr (state\<lparr>final_response := r\<rparr>), w'))"

definition final_response_agent :: "'w services \<Rightarrow> wstate \<Rightarrow> 'w \<Rightarrow> (exn + wstate) \<times> 'w" where
  "final_response_agent svc state w =
     (case final_response_try svc state w of
        (Inl e, w') \<Rightarrow> (Inr state, w')
      | (Inr state', w') \<Rightarrow> (Inr state', w'))"

subsection \<open>The engine\<close>

text \<open>The function that \<^verbatim>\<open>add_node\<close> attaches to each node.\<close>

fun run_node :: "'w services \<Rightarrow> node \<Rightarrow> wstate \<Rightarrow> 'w \<Rightarrow> (exn + wstate) \<times> 'w" where
  "run_node svc User_Interaction = user_interaction_agent svc"
| "run_node svc Retrieval = retrieval_agent svc"
| "run_node svc Filtering = filtering_agent svc"
| "run_node svc Final_Response = final_response_agent svc"

fun rank :: "node \<Rightarrow> nat" where
  "rank User_Interaction = 3"
| "rank Retrieval = 2"
| "rank Filtering = 1"
| "rank Final_Response = 0"

text \<open>
  The compiled graph, started at node \<open>n\<close>: run the node, and go on with the node its
  edge selects on the state the node returned, until the edge leads to \<^verbatim>\<open>END\<close> or a node
  raises. Besides the outcome it returns the steps it made, each with the node, the
  state the node received and the state of the world at that moment.
\<close>

function drive ::
  "'w services \<Rightarrow> node \<Rightarrow> wstate \<Rightarrow> 'w \<Rightarrow> (node \<times> wstate \<times> 'w) list \<times> (exn + wstate) \<times> 'w"
where
  "drive svc n state w =
     (case run_node svc n state w of
        (Inl e, w') \<Rightarrow> ([(n, state, w)], Inl e, w')
      | (Inr state', w') \<Rightarrow>
          (case next_node n state' of
             None \<Rightarrow> ([(n, state, w)], Inr state', w')
           | Some n' \<Rightarrow>
               (case drive svc n' state' w' of (steps, out) \<Rightarrow> ((n, state, w) # steps, out))))"
  by pat_completeness auto
termination
  by (relation "measure (\<lambda>(svc, n, state, w). rank n)")
     (auto split: if_splits elim!: next_node.elims)

text \<open>\<^verbatim>\<open>self.workflow.compile().invoke(initial_state)\<close>.\<close>

definition invoke :: "'w services \<Rightarrow> wstate \<Rightarrow> 'w \<Rightarrow> (exn + wstate) \<times> 'w" where
  "invoke svc state w = snd (drive svc entry_point state w)"

definition initial_state :: "string \<Rightarrow> wstate" where
  "initial_state inp =
     \<lparr>user_input = inp, user_preferences = [], retrieved_items = [],
      filtered_recommendations = [], final_response = []\<rparr>"

text \<open>\<^verbatim>\<open>RecommendationWorkflow.run\<close> and \<^verbatim>\<open>RecommendationWorkflow.get_state\<close>.\<close>

definition run :: "'w services \<Rightarrow> string \<Rightarrow> 'w \<Rightarrow> (exn + string) \<times> 'w" where
  "run svc inp w =
     (case invoke svc (initial_state inp) w of
        (Inl e, w') \<Rightarrow> (Inl e, w')
      | (Inr response, w') \<Rightarrow> (Inr (final_response response), w'))"

definition get_state :: "'w services \<Rightarrow> string \<Rightarrow> 'w \<Rightarrow> (exn + wstate) \<times> 'w" where
  "get_state svc inp w = invoke svc (initial_state inp) w"

text \<open>The steps of the run that \<^verbatim>\<open>run\<close> and \<^verbatim>\<open>get_state\<close> start.\<close>

definition steps_of :: "'w services \<Rightarrow> string \<Rightarrow> 'w \<Rightarrow> (node \<times> wstate \<times> 'w) list" where
  "steps_of svc inp w = fst (drive svc entry_point (initial_state inp) w)"

section \<open>The document store\<close>

text \<open>
  The filter \<^verbatim>\<open>ilike\<close> of the store is PostgreSQL's operator ILIKE on the pattern that the
  request carries: \<open>%\<close> stands for any piece of text, also the empty one, \<open>*\<close> is the
  request's way of writing \<open>%\<close>, \<open>_\<close> stands for any one character, a backslash makes the
  character after it stand for itself, and every other character of the pattern stands
  for itself; the pattern has to match the whole value, and case is ignored. A value
  that is not a text matches no pattern.
\<close>

fun like_match :: "string \<Rightarrow> string \<Rightarrow> bool" where
  "like_match [] t = (t = [])"
| "like_match (p # ps) t =
     (if p = CHR ''%'' \<or> p = CHR ''*''
      then (like_match ps t \<or> (case t of [] \<Rightarrow> False | c # cs \<Rightarrow> like_match (p # ps) cs))
      else if p = CHR 0x5C
      then (case ps of
              [] \<Rightarrow> False
            | q # qs \<Rightarrow> (case t of [] \<Rightarrow> False | c # cs \<Rightarrow> c = q \<and> like_match qs cs))
      else (case t of [] \<Rightarrow> False | c # cs \<Rightarrow> (p = CHR ''_'' \<or> c = p) \<and> like_match ps cs))"

definition ilike :: "string \<Rightarrow> string \<Rightarrow> bool" where
  "ilike v pat = like_match (lower pat) (lower v)"

text \<open>The answer of a store that holds the rows \<open>table\<close> to \<^verbatim>\<open>select("*").filter("genre", "ilike", pat)\<close>.\<close>

definition store_ilike :: "row list \<Rightarrow> string \<Rightarrow> row list" where
  "store_ilike table pat =
     filter (\<lambda>r. case map_of r ''genre'' of Some (JStr v) \<Rightarrow> ilike v pat | _ \<Rightarrow> False) table"

text \<open>Its answer to \<^verbatim>\<open>select("genre")\<close>: of every row the column \<open>genre\<close>.\<close>

definition store_genre :: "row list \<Rightarrow> row list" where
  "store_genre table = map (filter (\<lambda>kv. fst kv = ''genre'')) table"

section \<open>Example services\<close>

text \<open>
  Services for concrete runs: the language model and the store are given as plain
  functions, and the state of the world is the list of the calls made so far. The slot
  of a string in a set is its length.
\<close>

definition logged_services ::
  "(string \<Rightarrow> string \<Rightarrow> exn + string) \<Rightarrow> (exn + row list) \<Rightarrow> (string \<Rightarrow> exn + row list)
   \<Rightarrow> string list services" where
  "logged_services llm genres answer =
     \<lparr>llm_invoke = (\<lambda>sys usr w. (llm sys usr, w @ [''invoke''])),
      select_genre = (\<lambda>w. (genres, w @ [''select genre''])),
      select_all_ilike = (\<lambda>g w. (answer g, w @ [''ilike '' @ g])),
      set_slot = (\<lambda>xs x. length x)\<rparr>"

text \<open>Services whose store holds the rows \<open>table\<close>.\<close>

definition store_services ::
  "(string \<Rightarrow> string \<Rightarrow> exn + string) \<Rightarrow> row list \<Rightarrow> string list services" where
  "store_services llm table =
     logged_services llm (Inr (store_genre table)) (\<lambda>g. Inr (store_ilike table g))"

definition document :: "string \<Rightarrow> jval \<Rightarrow> jval \<Rightarrow> string \<Rightarrow> row" where
  "document t a d g = [(''title'', JStr t), (''author'', a), (''director'', d), (''genre'', JStr g)]"

definition demo_table :: "row list" where
  "demo_table =
     [document ''Dune'' (JStr ''Frank Herbert'') (JStr ''Denis Villeneuve'') ''Sci-Fi'',
      document ''The Hobbit'' (JStr ''J. R. R. Tolkien'') (JStr ''Peter Jackson'') ''Fantasy'',
      document ''Solaris'' (JStr ''Stanislaw Lem'') (JStr ''Andrei Tarkovsky'') ''Sci-Fi'',
      document ''Neuromancer'' (JStr ''William Gibson'') JNull ''sci-fi'',
      document ''Earthsea'' (JStr ''Ursula K. Le Guin'') JNull ''fantasy'']"

text \<open>A model that answers each of the three prompts with a fixed text.\<close>

definition demo_llm :: "string \<Rightarrow> string \<Rightarrow> exn + string" where
  "demo_llm sys usr =
     (if sys = user_interaction_prompt then Inr ''The user likes Sci-Fi movies and fantasy books.''
      else if sys = filtering_prompt then Inr ''Dune, The Hobbit''
      else Inr ''You may enjoy Dune and The Hobbit.'')"

definition demo_services :: "string list services" where
  "demo_services = store_services demo_llm demo_table"

text \<open>The same store when the query for the categories fails.\<close>

definition no_categories_services :: "string list services" where
  "no_categories_services =
     logged_services demo_llm (Inl (ClientError ''connection refused''))
       (\<lambda>g. Inr (store_ilike demo_table g))"

text \<open>The same store when the query for the genre \<open>fantasy\<close> fails.\<close>

definition flaky_ilike :: "string \<Rightarrow> exn + row list" where
  "flaky_ilike g =
     (if g = ''fantasy'' then Inl (ClientError ''timeout'') else Inr (store_ilike demo_table g))"

definition flaky_services :: "string list services" where
  "flaky_services = logged_services demo_llm (Inr (store_genre demo_table)) flaky_ilike"

text \<open>A table of books, which has no column \<open>director\<close>.\<close>

definition book_table :: "row list" where
  "book_table =
     [[(''title'', JStr ''Dune''), (''author'', JStr ''Frank Herbert''), (''genre'', JStr ''sci-fi'')]]"

definition book_services :: "string list services" where
  "book_services = store_services demo_llm book_table"

text \<open>A table with a genre label of two words.\<close>

definition horror_table :: "row list" where
  "horror_table =
     [document ''Dune'' (JStr ''Frank Herbert'') (JStr ''Denis Villeneuve'') ''Sci-Fi'',
      document ''Alien'' JNull (JStr ''Ridley Scott'') ''Sci-Fi Horror'']"

definition horror_services :: "string list services" where
  "horror_services = store_services demo_llm horror_table"

text \<open>A table with a row whose genre is NULL.\<close>

definition null_genre_table :: "row list" where
  "null_genre_table =
     [document ''Dune'' (JStr ''Frank Herbert'') (JStr ''Denis Villeneuve'') ''Sci-Fi'',
      [(''title'', JStr ''Untitled''), (''author'', JNull), (''director'', JNull),
       (''genre'', JNull)]]"

definition null_genre_services :: "string list services" where
  "null_genre_services = store_services demo_llm null_genre_table"

text \<open>A model that answers every message with a question.\<close>

definition chatty_llm :: "string \<Rightarrow> string \<Rightarrow> exn + string" where
  "chatty_llm sys usr = Inr ''Please tell me what you like.''"

definition chatty_services :: "string list services" where
  "chatty_services = store_services chatty_llm demo_table"

text \<open>A provider that rejects an empty user message.\<close>

definition strict_llm :: "string \<Rightarrow> string \<Rightarrow> exn + string" where
  "strict_llm sys usr = (if usr = [] then Inl (ClientError ''empty message'') else demo_llm sys usr)"

definition strict_services :: "string list services" where
  "strict_services = store_services strict_llm demo_table"

text \<open>No service can be reached.\<close>

definition outage_services :: "string list services" where
  "outage_services =
     logged_services (\<lambda>sys usr. Inl (ClientError ''unreachable''))
       (Inl (ClientError ''unreachable'')) (\<lambda>g. Inl (ClientError ''unreachable''))"

section \<open>Notions used in the statements\<close>

text \<open>
  A whole word of a text: a non-empty piece without whitespace that has the beginning
  of the text or a whitespace character before it, and the end of the text or a
  whitespace character after it.
\<close>

definition is_token :: "string \<Rightarrow> string \<Rightarrow> bool" where
  "is_token x s \<longleftrightarrow>
     x \<noteq> [] \<and> (\<forall>c\<in>set x. \<not> is_space c) \<and>
     (\<exists>pre post. s = pre @ x @ post \<and> (pre = [] \<or> is_space (last pre))
        \<and> (post = [] \<or> is_space (hd post)))"

text \<open>
  One query for each category, in the order of the categories: the list of the answers,
  or the first failure.
\<close>

fun matches_per_category ::
  "'w services \<Rightarrow> string list \<Rightarrow> 'w \<Rightarrow> (exn + row list list) \<times> 'w" where
  "matches_per_category svc [] w = (Inr [], w)"
| "matches_per_category svc (c # cs) w =
     (case select_all_ilike svc c w of
        (Inl e, w') \<Rightarrow> (Inl e, w')
      | (Inr d, w') \<Rightarrow>
          (case matches_per_category svc cs w' of
             (Inl e, w'') \<Rightarrow> (Inl e, w'')
           | (Inr ds, w'') \<Rightarrow> (Inr (d # ds), w'')))"

text \<open>The field a stage writes, and the fields of the stages after it, are still empty.\<close>

fun unwritten :: "node \<Rightarrow> wstate \<Rightarrow> bool" where
  "unwritten User_Interaction st \<longleftrightarrow> user_preferences st = [] \<and> retrieved_items st = []
     \<and> filtered_recommendations st = [] \<and> final_response st = []"
| "unwritten Retrieval st \<longleftrightarrow> retrieved_items st = []
     \<and> filtered_recommendations st = [] \<and> final_response st = []"
| "unwritten Filtering st \<longleftrightarrow> filtered_recommendations st = [] \<and> final_response st = []"
| "unwritten Final_Response st \<longleftrightarrow> final_response st = []"


text \<open>
  A stage fails when the \<^verbatim>\<open>try\<close> block of its function is left by an exception, which
  is an exception of \<^verbatim>\<open>get_response\<close>, \<^verbatim>\<open>get_available_categories\<close> or \<^verbatim>\<open>query_documents\<close>.
\<close>

fun stage_failed :: "'w services \<Rightarrow> node \<Rightarrow> wstate \<Rightarrow> 'w \<Rightarrow> bool" where
  "stage_failed svc User_Interaction st w = isl (fst (user_interaction_try svc st w))"
| "stage_failed svc Retrieval st w = isl (fst (retrieval_try svc st w))"
| "stage_failed svc Filtering st w =
     (case format_items (retrieved_items st) of
        Inl e \<Rightarrow> False
      | Inr ls \<Rightarrow> isl (fst (filtering_try svc st (join [CHR 0x0A] ls) w)))"
| "stage_failed svc Final_Response st w = isl (fst (final_response_try svc st w))"

text \<open>
  The steps and the outcome of a run of the graph: each step's node returns the state
  the next step starts with and its edge selects the next step's node on that state;
  the last step's node raises, which is the outcome, or its edge leads to \<^verbatim>\<open>END\<close> and the
  state it returns is the outcome.
\<close>

fun is_run ::
  "'w services \<Rightarrow> (node \<times> wstate \<times> 'w) list \<Rightarrow> (exn + wstate) \<times> 'w \<Rightarrow> bool" where
  "is_run svc [] out = False"
| "is_run svc [(n, st, w)] out =
     (case run_node svc n st w of
        (Inl e, w') \<Rightarrow> out = (Inl e, w')
      | (Inr st', w') \<Rightarrow> next_node n st' = None \<and> out = (Inr st', w'))"
| "is_run svc ((n, st, w) # (n', st', w') # rest) out =
     (run_node svc n st w = (Inr st', w') \<and> next_node n st' = Some n'
      \<and> is_run svc ((n', st', w') # rest) out)"

text \<open>An item has the four fields that the filtering stage reads.\<close>

definition has_fields :: "row \<Rightarrow> bool" where
  "has_fields item \<longleftrightarrow>
     map_of item ''title'' \<noteq> None \<and> map_of item ''author'' \<noteq> None
     \<and> map_of item ''director'' \<noteq> None \<and> map_of item ''genre'' \<noteq> None"


text \<open>A pattern without the characters that \<^verbatim>\<open>ilike\<close> reads as wildcards or as escape.\<close>

definition plain :: "string \<Rightarrow> bool" where
  "plain pat \<longleftrightarrow>
     (\<forall>c\<in>set pat. c \<noteq> CHR ''%'' \<and> c \<noteq> CHR ''*'' \<and> c \<noteq> CHR ''_'' \<and> c \<noteq> CHR 0x5C)"

text \<open>The genre of a row is a text that is equal to \<open>g\<close> when case is ignored.\<close>

definition genre_is :: "string \<Rightarrow> row \<Rightarrow> bool" where
  "genre_is g r = (case map_of r ''genre'' of Some (JStr v) \<Rightarrow> lower v = lower g | _ \<Rightarrow> False)"

text \<open>The store holds the table \<open>table\<close> and answers every query.\<close>

definition serves_table :: "'w services \<Rightarrow> row list \<Rightarrow> bool" where
  "serves_table svc table \<longleftrightarrow>
     (\<forall>g w. fst (select_all_ilike svc g w) = Inr (store_ilike table g))"

text \<open>The genre of a row is a text.\<close>

definition genre_text :: "row \<Rightarrow> bool" where
  "genre_text r = (case map_of r ''genre'' of Some (JStr v) \<Rightarrow> True | _ \<Rightarrow> False)"

text \<open>The genre of a row whose genre is a text.\<close>

definition genre_of :: "row \<Rightarrow> string" where
  "genre_of r = (case map_of r ''genre'' of Some (JStr v) \<Rightarrow> v | _ \<Rightarrow> [])"

section \<open>Auxiliary facts\<close>

lemma split_aux_append_space:
  "is_space sp \<Longrightarrow> split_aux (a @ sp # b) cur = split_aux a cur @ split b"
  by (induction a arbitrary: cur) (auto simp: split_def)

lemma split_aux_nospace:
  "\<forall>c\<in>set t. \<not> is_space c \<Longrightarrow> split_aux t cur = (if cur @ t = [] then [] else [cur @ t])"
  by (induction t arbitrary: cur) auto

lemma is_tokenI:
  "s = pre @ x @ post \<Longrightarrow> x \<noteq> [] \<Longrightarrow> \<forall>c\<in>set x. \<not> is_space c \<Longrightarrow>
   pre = [] \<or> is_space (last pre) \<Longrightarrow> post = [] \<or> is_space (hd post) \<Longrightarrow> is_token x s"
  unfolding is_token_def by (intro conjI exI[of _ pre] exI[of _ post]) assumption+

lemma split_aux_token:
  "x \<in> set (split_aux s cur) \<Longrightarrow> \<forall>c\<in>set cur. \<not> is_space c \<Longrightarrow> is_token x (cur @ s)"
proof (induction s arbitrary: cur)
  case Nil
  then have x: "x = cur" "cur \<noteq> []" by (auto split: if_splits)
  show ?case
    by (rule is_tokenI[of _ "[]" _ "[]"]) (use x Nil.prems(2) in simp_all)
next
  case (Cons c cs)
  show ?case
  proof (cases "is_space c")
    case False
    with Cons.prems have "x \<in> set (split_aux cs (cur @ [c]))" by simp
    moreover have "\<forall>d\<in>set (cur @ [c]). \<not> is_space d" using False Cons.prems by auto
    ultimately show ?thesis using Cons.IH[of "cur @ [c]"] by simp
  next
    case sp: True
    show ?thesis
    proof (cases "x = cur \<and> cur \<noteq> []")
      case True
      show ?thesis
        by (rule is_tokenI[of _ "[]" _ "c # cs"]) (use True sp Cons.prems(2) in simp_all)
    next
      case False
      with sp Cons.prems have "x \<in> set (split_aux cs [])" by (auto split: if_splits)
      from Cons.IH[OF this] have "is_token x cs" by simp
      then obtain pre post where
        x: "x \<noteq> []" "\<forall>c\<in>set x. \<not> is_space c" and
        d: "cs = pre @ x @ post" "pre = [] \<or> is_space (last pre)" "post = [] \<or> is_space (hd post)"
        unfolding is_token_def by blast
      show ?thesis
        by (rule is_tokenI[of _ "cur @ c # pre" _ post]) (use x d sp in auto)
    qed
  qed
qed

lemma split_token_iff: "x \<in> set (split s) \<longleftrightarrow> is_token x s"
proof
  assume "x \<in> set (split s)"
  then show "is_token x s" using split_aux_token[of x s "[]"] by (simp add: split_def)
next
  assume "is_token x s"
  then obtain pre post where x: "x \<noteq> []" "\<forall>c\<in>set x. \<not> is_space c"
    and d: "s = pre @ x @ post" "pre = [] \<or> is_space (last pre)" "post = [] \<or> is_space (hd post)"
    unfolding is_token_def by blast
  have mid: "x \<in> set (split (x @ post))"
  proof (cases post)
    case Nil then show ?thesis using x by (simp add: split_def split_aux_nospace)
  next
    case (Cons p ps)
    with d have "is_space p" by simp
    then show ?thesis using x Cons by (simp add: split_def split_aux_append_space split_aux_nospace)
  qed
  show "x \<in> set (split s)"
  proof (cases "pre = []")
    case True then show ?thesis using mid d by simp
  next
    case False
    then obtain pr sp where p: "pre = pr @ [sp]" by (metis rev_exhaust)
    with d False have "is_space sp" by simp
    then have "split s = split pr @ split (x @ post)"
      using d p split_aux_append_space[of sp pr "x @ post" "[]"] by (simp add: split_def)
    then show ?thesis using mid by simp
  qed
qed

lemma of_char_lower_char:
  "is_upper c \<Longrightarrow> (of_char (lower_char c) :: nat) = of_char c + 32"
  by (auto simp: lower_char_def is_upper_def)

lemma is_upper_lower_char: "\<not> is_upper (lower_char c)"
proof (cases "is_upper c")
  case True
  from of_char_lower_char[OF True] True show ?thesis
    unfolding is_upper_def by arith
next
  case False
  then show ?thesis by (simp add: lower_char_def)
qed

lemma lower_char_idem: "lower_char (lower_char c) = lower_char c"
  using is_upper_lower_char[of c] by (simp add: lower_char_def)

lemma lower_idem: "lower (lower s) = lower s"
  by (simp add: lower_def lower_char_idem)

lemma list_of_set_props: "distinct (list_of_set h xs) \<and> set (list_of_set h xs) = set xs"
  by (simp add: list_of_set_def)

lemma query_loop_matches:
  "query_loop svc genres acc w =
     (case matches_per_category svc genres w of
        (Inl e, w') \<Rightarrow> (Inl e, w')
      | (Inr ds, w') \<Rightarrow> (Inr (acc @ concat ds), w'))"
  by (induction genres arbitrary: acc w) (auto split: prod.splits sum.splits)

lemma query_loop_append:
  "query_loop svc (gs1 @ gs2) acc w =
     (case query_loop svc gs1 acc w of
        (Inl e, w') \<Rightarrow> (Inl e, w')
      | (Inr acc', w') \<Rightarrow> query_loop svc gs2 acc' w')"
  by (induction gs1 arbitrary: acc w) (auto split: prod.splits sum.splits)

lemma query_documents_matches:
  "query_documents svc genres w =
     (case matches_per_category svc genres w of
        (Inl e, w') \<Rightarrow> (Inl (HTTPException 500 ''Database query error.''), w')
      | (Inr ds, w') \<Rightarrow> (Inr (concat ds), w'))"
  by (simp add: query_documents_def query_loop_matches split: prod.splits sum.splits)

lemma query_documents_fail_partway:
  assumes "query_documents svc gs1 w = (Inr acc, w1)"
      and "select_all_ilike svc g w1 = (Inl e, w2)"
  shows "query_documents svc (gs1 @ g # gs2) w = (Inl (HTTPException 500 ''Database query error.''), w2)"
  using assms by (auto simp: query_documents_def query_loop_append split: prod.splits sum.splits)

lemma get_response_cases:
  obtains (fail) e w' where "llm_invoke svc sys usr w = (Inl e, w')"
      "get_response svc sys usr w = (Inl (HTTPException 500 ''LLM processing error.''), w')"
  | (ok) r w' where "llm_invoke svc sys usr w = (Inr r, w')" "get_response svc sys usr w = (Inr r, w')"
  by (cases "llm_invoke svc sys usr w"; cases "fst (llm_invoke svc sys usr w)")
     (auto simp: get_response_def)

lemma user_interaction_agent_writes:
  "\<exists>v w'. user_interaction_agent svc st w = (Inr (st\<lparr>user_preferences := v\<rparr>), w')"
proof (cases "user_interaction_try svc st w")
  case (Pair r w')
  show ?thesis
  proof (cases r)
    case (Inl e)
    with Pair have "user_interaction_agent svc st w = (Inr (st\<lparr>user_preferences := user_preferences st\<rparr>), w')"
      by (simp add: user_interaction_agent_def)
    then show ?thesis by blast
  next
    case (Inr st')
    with Pair have "st' = st\<lparr>user_preferences := user_preferences st'\<rparr>"
      by (auto simp: user_interaction_try_def split: prod.splits sum.splits)
    with Pair Inr have "user_interaction_agent svc st w = (Inr (st\<lparr>user_preferences := user_preferences st'\<rparr>), w')"
      by (simp add: user_interaction_agent_def)
    then show ?thesis by blast
  qed
qed

lemma retrieval_agent_writes:
  "\<exists>v w'. retrieval_agent svc st w = (Inr (st\<lparr>retrieved_items := v\<rparr>), w')"
proof (cases "retrieval_try svc st w")
  case (Pair r w')
  show ?thesis
  proof (cases r)
    case (Inl e)
    with Pair have "retrieval_agent svc st w = (Inr (st\<lparr>retrieved_items := retrieved_items st\<rparr>), w')"
      by (simp add: retrieval_agent_def)
    then show ?thesis by blast
  next
    case (Inr st')
    with Pair have "st' = st\<lparr>retrieved_items := retrieved_items st'\<rparr>"
      by (auto simp: retrieval_try_def Let_def split: prod.splits sum.splits if_splits)
    with Pair Inr have "retrieval_agent svc st w = (Inr (st\<lparr>retrieved_items := retrieved_items st'\<rparr>), w')"
      by (simp add: retrieval_agent_def)
    then show ?thesis by blast
  qed
qed

lemma final_response_agent_writes:
  "\<exists>v w'. final_response_agent svc st w = (Inr (st\<lparr>final_response := v\<rparr>), w')"
proof (cases "final_response_try svc st w")
  case (Pair r w')
  show ?thesis
  proof (cases r)
    case (Inl e)
    with Pair have "final_response_agent svc st w = (Inr (st\<lparr>final_response := final_response st\<rparr>), w')"
      by (simp add: final_response_agent_def)
    then show ?thesis by blast
  next
    case (Inr st')
    with Pair have "st' = st\<lparr>final_response := final_response st'\<rparr>"
      by (auto simp: final_response_try_def split: prod.splits sum.splits)
    with Pair Inr have "final_response_agent svc st w = (Inr (st\<lparr>final_response := final_response st'\<rparr>), w')"
      by (simp add: final_response_agent_def)
    then show ?thesis by blast
  qed
qed

lemma filtering_agent_writes:
  "filtering_agent svc st w = (Inr st', w') \<Longrightarrow> st' = st\<lparr>filtered_recommendations := filtered_recommendations st'\<rparr>"
  by (auto simp: filtering_agent_def filtering_try_def split: prod.splits sum.splits)


lemma run_node_writes:
  assumes "run_node svc n st w = (Inr st', w')"
  shows "user_input st' = user_input st
     \<and> (n \<noteq> User_Interaction \<longrightarrow> user_preferences st' = user_preferences st)
     \<and> (n \<noteq> Retrieval \<longrightarrow> retrieved_items st' = retrieved_items st)
     \<and> (n \<noteq> Filtering \<longrightarrow> filtered_recommendations st' = filtered_recommendations st)
     \<and> (n \<noteq> Final_Response \<longrightarrow> final_response st' = final_response st)"
proof (cases n)
  case User_Interaction
  with assms user_interaction_agent_writes[of svc st w] show ?thesis by auto
next
  case Retrieval
  with assms retrieval_agent_writes[of svc st w] show ?thesis by auto
next
  case Filtering
  with assms have "st' = st\<lparr>filtered_recommendations := filtered_recommendations st'\<rparr>"
    by (simp add: filtering_agent_writes)
  then have "user_input st' = user_input st \<and> user_preferences st' = user_preferences st
     \<and> retrieved_items st' = retrieved_items st \<and> final_response st' = final_response st"
    by (metis wstate.select_convs wstate.surjective wstate.update_convs)
  with Filtering show ?thesis by simp
next
  case Final_Response
  with assms final_response_agent_writes[of svc st w] show ?thesis by auto
qed

lemma next_node_rank: "next_node n st = Some n' \<Longrightarrow> rank n' < rank n"
  by (cases n) (auto split: if_splits)

lemma unwritten_step:
  assumes "unwritten n st" "run_node svc n st w = (Inr st', w')" "next_node n st' = Some n'"
  shows "unwritten n' st'"
  using run_node_writes[OF assms(2)] assms(1,3)
  by (cases n; cases n') (auto split: if_splits)

declare drive.simps [simp del]

lemma drive_outcome_suffix:
  "(n, st, w) \<in> set (fst (drive svc n0 s0 w0)) \<Longrightarrow> snd (drive svc n0 s0 w0) = snd (drive svc n st w)"
proof (induction svc n0 s0 w0 rule: drive.induct)
  case (1 svc n0 s0 w0)
  show ?case
  proof (cases "run_node svc n0 s0 w0")
    case (Pair r w')
    show ?thesis
    proof (cases r)
      case (Inl e)
      with Pair 1 show ?thesis by (simp add: drive.simps[of svc n0 s0 w0])
    next
      case (Inr s')
      show ?thesis
      proof (cases "next_node n0 s'")
        case None
        with Pair Inr 1 show ?thesis by (simp add: drive.simps[of svc n0 s0 w0])
      next
        case (Some n')
        obtain steps out where d: "drive svc n' s' w' = (steps, out)" by (cases "drive svc n' s' w'")
        with Pair Inr Some have e: "drive svc n0 s0 w0 = ((n0, s0, w0) # steps, out)"
          by (simp add: drive.simps[of svc n0 s0 w0])
        with 1(2) have "(n, st, w) = (n0, s0, w0) \<or> (n, st, w) \<in> set steps" by simp
        then show ?thesis
        proof
          assume "(n, st, w) = (n0, s0, w0)" then show ?thesis by simp
        next
          assume "(n, st, w) \<in> set steps"
          with d have "(n, st, w) \<in> set (fst (drive svc n' s' w'))" by simp
          from 1(1)[OF Pair[symmetric] Inr Some this] have "snd (drive svc n' s' w') = snd (drive svc n st w)" .
          with d e show ?thesis by simp
        qed
      qed
    qed
  qed
qed

lemma drive_cases:
  obtains (raise) e w' where "run_node svc n st w = (Inl e, w')"
      "drive svc n st w = ([(n, st, w)], Inl e, w')"
  | (stop) st' w' where "run_node svc n st w = (Inr st', w')" "next_node n st' = None"
      "drive svc n st w = ([(n, st, w)], Inr st', w')"
  | (go) st' w' n' where "run_node svc n st w = (Inr st', w')" "next_node n st' = Some n'"
      "drive svc n st w = ((n, st, w) # fst (drive svc n' st' w'), snd (drive svc n' st' w'))"
proof (cases "run_node svc n st w")
  case (Pair r w')
  show ?thesis
  proof (cases r)
    case (Inl e)
    with Pair show ?thesis by (intro raise[of e w']) (simp_all add: drive.simps[of svc n st w])
  next
    case (Inr st')
    show ?thesis
    proof (cases "next_node n st'")
      case None
      with Pair Inr show ?thesis by (intro stop[of st' w']) (simp_all add: drive.simps[of svc n st w])
    next
      case (Some n')
      with Pair Inr show ?thesis
        by (intro go[of st' w' n']) (simp_all add: drive.simps[of svc n st w] split: prod.split)
    qed
  qed
qed

lemma drive_steps_hd: "\<exists>rest. fst (drive svc n st w) = (n, st, w) # rest"
  by (cases rule: drive_cases[of svc n st w]) simp_all

lemma drive_is_run: "is_run svc (fst (drive svc n st w)) (snd (drive svc n st w))"
proof (induction "rank n" arbitrary: n st w rule: less_induct)
  case less
  show ?case
  proof (cases rule: drive_cases[of svc n st w])
    case (go st' w' n')
    obtain rest where r: "fst (drive svc n' st' w') = (n', st', w') # rest"
      using drive_steps_hd[of svc n' st' w'] by blast
    have "is_run svc (fst (drive svc n' st' w')) (snd (drive svc n' st' w'))"
      using less go(2) by (simp add: next_node_rank)
    with go r show ?thesis by simp
  qed simp_all
qed

lemma drive_steps_inv:
  "(n, st, w) \<in> set (fst (drive svc n0 s0 w0)) \<Longrightarrow> unwritten n0 s0 \<Longrightarrow>
     unwritten n st \<and> user_input st = user_input s0"
proof (induction "rank n0" arbitrary: n0 s0 w0 rule: less_induct)
  case less
  show ?case
  proof (cases rule: drive_cases[of svc n0 s0 w0])
    case (go st' w' n')
    show ?thesis
    proof (cases "(n, st, w) = (n0, s0, w0)")
      case True
      with less.prems show ?thesis by simp
    next
      case False
      with less.prems(1) go(3) have m: "(n, st, w) \<in> set (fst (drive svc n' st' w'))" by auto
      have u: "unwritten n' st'" using unwritten_step[OF less.prems(2) go(1) go(2)] .
      have "unwritten n st \<and> user_input st = user_input st'"
        using less.hyps[OF next_node_rank[OF go(2)] m u] .
      with run_node_writes[OF go(1)] show ?thesis by simp
    qed
  qed (use less.prems in auto)
qed

lemma drive_last:
  "snd (drive svc n0 s0 w0) = (Inr stT, wT) \<Longrightarrow>
     \<exists>st w. last (fst (drive svc n0 s0 w0)) = (Final_Response, st, w)
        \<and> final_response_agent svc st w = (Inr stT, wT)"
proof (induction "rank n0" arbitrary: n0 s0 w0 rule: less_induct)
  case less
  show ?case
  proof (cases rule: drive_cases[of svc n0 s0 w0])
    case (raise e w')
    with less.prems show ?thesis by simp
  next
    case (stop st' w')
    then have "n0 = Final_Response" by (cases n0) (auto split: if_splits)
    with stop less.prems show ?thesis by simp
  next
    case (go st' w' n')
    obtain rest where r: "fst (drive svc n' st' w') = (n', st', w') # rest"
      using drive_steps_hd[of svc n' st' w'] by blast
    have "snd (drive svc n' st' w') = (Inr stT, wT)" using go(3) less.prems by simp
    from less.hyps[OF next_node_rank[OF go(2)] this] go(3) r show ?thesis by simp
  qed
qed

lemma getitem_ok: "map_of item k \<noteq> None \<Longrightarrow> \<exists>v. getitem item k = Inr v"
  by (auto simp: getitem_def)

lemma format_item_ok: "has_fields item \<Longrightarrow> \<exists>l. format_item item = Inr l"
  by (auto simp: has_fields_def format_item_def getitem_def)

lemma format_item_raises:
  "\<not> has_fields item \<Longrightarrow>
     \<exists>k. format_item item = Inl (KeyError k) \<and> k \<in> {''title'', ''author'', ''director'', ''genre''}"
  by (auto simp: has_fields_def format_item_def getitem_def split: option.splits)

lemma format_items_ok: "\<forall>item\<in>set items. has_fields item \<Longrightarrow> \<exists>ls. format_items items = Inr ls"
proof (induction items)
  case (Cons a items)
  then obtain l ls where "format_item a = Inr l" "format_items items = Inr ls"
    using format_item_ok[of a] by auto
  then show ?case by simp
qed simp

lemma format_items_raises:
  "\<exists>item\<in>set items. \<not> has_fields item \<Longrightarrow>
     \<exists>k. format_items items = Inl (KeyError k) \<and> k \<in> {''title'', ''author'', ''director'', ''genre''}"
proof (induction items)
  case (Cons a items)
  show ?case
  proof (cases "has_fields a")
    case True
    then obtain l where l: "format_item a = Inr l" using format_item_ok by blast
    from True Cons.prems have "\<exists>item\<in>set items. \<not> has_fields item" by auto
    from Cons.IH[OF this] l show ?thesis by auto
  next
    case False
    from format_item_raises[OF False] show ?thesis by auto
  qed
qed simp






lemma stage_failed_unchanged:
  "stage_failed svc n st w \<Longrightarrow> run_node svc n st w = (Inr st', w') \<Longrightarrow> st' = st"
  by (cases n)
     (auto simp: user_interaction_agent_def retrieval_agent_def filtering_agent_def
        final_response_agent_def split: prod.splits sum.splits)



lemma format_items_error:
  "format_items items = Inl e \<Longrightarrow>
     (\<exists>k\<in>{''title'', ''author'', ''director'', ''genre''}. e = KeyError k)
     \<and> (\<exists>item\<in>set items. \<not> has_fields item)"
proof -
  assume a: "format_items items = Inl e"
  have "\<not> (\<forall>item\<in>set items. has_fields item)"
    using format_items_ok[of items] a by auto
  then have b: "\<exists>item\<in>set items. \<not> has_fields item" by blast
  from format_items_raises[OF b] a show ?thesis using b by auto
qed


lemma drive_final:
  "\<exists>v w'. drive svc Final_Response st w
      = ([(Final_Response, st, w)], Inr (st\<lparr>final_response := v\<rparr>), w')"
  using final_response_agent_writes[of svc st w]
  by (auto simp: drive.simps[of svc Final_Response st w])



lemma genre_labels_ok:
  "\<forall>r\<in>set data. genre_text r \<Longrightarrow>
     genre_labels data
       = Inr (map (\<lambda>r. case map_of r ''genre'' of Some (JStr v) \<Rightarrow> lower v | _ \<Rightarrow> []) data)"
  by (induction data)
     (auto simp: genre_text_def getitem_def value_lower_def split: option.splits jval.splits)

lemma genre_labels_raises:
  "\<exists>r\<in>set data. \<not> genre_text r \<Longrightarrow> \<exists>e. genre_labels data = Inl e"
proof (induction data)
  case Nil
  then show ?case by simp
next
  case (Cons a data)
  show ?case
  proof (cases "genre_text a")
    case False
    then show ?thesis
      by (auto simp: genre_text_def getitem_def value_lower_def split: option.splits jval.splits)
  next
    case True
    with Cons.prems have "\<exists>r\<in>set data. \<not> genre_text r" by simp
    from Cons.IH[OF this] obtain e where "genre_labels data = Inl e" by blast
    with True show ?thesis
      by (auto simp: genre_text_def getitem_def value_lower_def split: option.splits jval.splits)
  qed
qed

lemma like_match_plain: "plain pat \<Longrightarrow> like_match pat t \<longleftrightarrow> t = pat"
  by (induction pat arbitrary: t) (auto simp: plain_def split: list.splits)

lemma lower_char_plain:
  "c \<noteq> CHR ''%'' \<and> c \<noteq> CHR ''*'' \<and> c \<noteq> CHR ''_'' \<and> c \<noteq> CHR 0x5C \<Longrightarrow>
   lower_char c \<noteq> CHR ''%'' \<and> lower_char c \<noteq> CHR ''*'' \<and> lower_char c \<noteq> CHR ''_''
     \<and> lower_char c \<noteq> CHR 0x5C"
proof (cases "is_upper c")
  case True
  have "(of_char (lower_char c) :: nat) \<ge> 97"
    using of_char_lower_char[OF True] True unfolding is_upper_def by arith
  then show ?thesis by auto
next
  case False
  assume "c \<noteq> CHR ''%'' \<and> c \<noteq> CHR ''*'' \<and> c \<noteq> CHR ''_'' \<and> c \<noteq> CHR 0x5C"
  with False show ?thesis by (simp add: lower_char_def)
qed

lemma plain_lower: "plain pat \<Longrightarrow> plain (lower pat)"
  using lower_char_plain by (auto simp: plain_def lower_def)

lemma store_ilike_plain:
  "plain g \<Longrightarrow> store_ilike table g = filter (genre_is g) table"
proof -
  assume p: "plain g"
  have "(case map_of r ''genre'' of Some (JStr v) \<Rightarrow> ilike v g | _ \<Rightarrow> False) = genre_is g r" for r
    using like_match_plain[OF plain_lower[OF p]]
    by (auto simp: ilike_def genre_is_def split: option.splits jval.splits)
  then show ?thesis by (simp add: store_ilike_def)
qed

lemma get_available_categories_world:
  "snd (get_available_categories svc w) = snd (select_genre svc w)"
  by (simp add: get_available_categories_def split: prod.splits sum.splits)

lemma retrieval_agent_unfold:
  assumes "get_available_categories svc w = (Inr cats, w1)"
  shows "retrieval_agent svc st w =
     (if selected_categories cats (user_preferences st) \<noteq> []
      then (case query_documents svc (selected_categories cats (user_preferences st)) w1 of
              (Inl e, w2) \<Rightarrow> (Inr st, w2)
            | (Inr items, w2) \<Rightarrow> (Inr (st\<lparr>retrieved_items := items\<rparr>), w2))
      else (Inr (st\<lparr>retrieved_items := []\<rparr>), w1))"
proof (cases "selected_categories cats (user_preferences st) = []")
  case True
  then show ?thesis
    unfolding retrieval_agent_def retrieval_try_def Let_def assms by simp
next
  case False
  obtain q w2 where q: "query_documents svc (selected_categories cats (user_preferences st)) w1 = (q, w2)"
    by (cases "query_documents svc (selected_categories cats (user_preferences st)) w1")
  show ?thesis
    unfolding retrieval_agent_def retrieval_try_def Let_def assms
    using False q by (cases q) simp_all
qed


lemma drive_final_eq:
  "drive svc Final_Response s v = ([(Final_Response, s, v)], final_response_agent svc s v)"
  using final_response_agent_writes[of svc s v]
  by (auto simp: drive.simps[of svc Final_Response s v])

section \<open>The transition table\<close>

text \<open>
  C1. The engine routes as the transition table says. The entry point is User
  Interaction. After User Interaction the next node is Retrieval when
  \<open>user_preferences\<close> is not empty and Final Response when it is empty; after Retrieval
  it is Filtering when \<open>retrieved_items\<close> is not empty and Final Response when it is
  empty; after Filtering it is Final Response; after Final Response the run ends, and
  no other node leads to the end. Every run starts with User Interaction on the initial
  state and takes each of these edges: its steps and its outcome are a run of the
  graph, so after every step but the last comes the step that the edge selects, and the
  run ends only when a node raises or after Final Response. Spelled out for the four
  routes: when \<open>user_preferences\<close> is empty after User Interaction the steps are User
  Interaction and Final Response; when it is not empty and \<open>retrieved_items\<close> is empty
  after Retrieval they are User Interaction, Retrieval and Final Response; when both
  are not empty they are User Interaction, Retrieval, Filtering and, unless Filtering
  raises, Final Response.
\<close>

theorem workflow_routing:
  "entry_point = User_Interaction
   \<and> next_node User_Interaction st =
       Some (if user_preferences st \<noteq> [] then Retrieval else Final_Response)
   \<and> next_node Retrieval st = Some (if retrieved_items st \<noteq> [] then Filtering else Final_Response)
   \<and> next_node Filtering st = Some Final_Response
   \<and> next_node Final_Response st = None
   \<and> (next_node n st = None \<longleftrightarrow> n = Final_Response)
   \<and> (\<exists>rest. steps_of svc inp w = (User_Interaction, initial_state inp, w) # rest)
   \<and> is_run svc (steps_of svc inp w) (get_state svc inp w)
   \<and> (\<forall>stT wT. get_state svc inp w = (Inr stT, wT) \<longrightarrow>
         fst (last (steps_of svc inp w)) = Final_Response)
   \<and> (\<exists>s1 w1. user_interaction_agent svc (initial_state inp) w = (Inr s1, w1)
        \<and> (user_preferences s1 = [] \<longrightarrow>
             steps_of svc inp w = [(User_Interaction, initial_state inp, w), (Final_Response, s1, w1)]
             \<and> get_state svc inp w = final_response_agent svc s1 w1)
        \<and> (user_preferences s1 \<noteq> [] \<longrightarrow>
             (\<exists>s2 w2. retrieval_agent svc s1 w1 = (Inr s2, w2)
                \<and> (retrieved_items s2 = [] \<longrightarrow>
                     steps_of svc inp w
                       = [(User_Interaction, initial_state inp, w), (Retrieval, s1, w1),
                          (Final_Response, s2, w2)]
                     \<and> get_state svc inp w = final_response_agent svc s2 w2)
                \<and> (retrieved_items s2 \<noteq> [] \<longrightarrow>
                     (\<forall>e w3. filtering_agent svc s2 w2 = (Inl e, w3) \<longrightarrow>
                        steps_of svc inp w
                          = [(User_Interaction, initial_state inp, w), (Retrieval, s1, w1),
                             (Filtering, s2, w2)]
                        \<and> get_state svc inp w = (Inl e, w3))
                     \<and> (\<forall>s3 w3. filtering_agent svc s2 w2 = (Inr s3, w3) \<longrightarrow>
                        steps_of svc inp w
                          = [(User_Interaction, initial_state inp, w), (Retrieval, s1, w1),
                             (Filtering, s2, w2), (Final_Response, s3, w3)]
                        \<and> get_state svc inp w = final_response_agent svc s3 w3)))))"
proof -
  have a: "next_node n st = None \<longleftrightarrow> n = Final_Response"
    by (cases n) simp_all
  have b: "\<exists>rest. steps_of svc inp w = (User_Interaction, initial_state inp, w) # rest"
    using drive_steps_hd[of svc entry_point "initial_state inp" w]
    by (simp add: steps_of_def entry_point_def)
  have c: "is_run svc (steps_of svc inp w) (get_state svc inp w)"
    by (simp add: steps_of_def get_state_def invoke_def drive_is_run)
  have d: "fst (last (steps_of svc inp w)) = Final_Response"
    if "get_state svc inp w = (Inr stT, wT)" for stT wT
    using drive_last[of svc entry_point "initial_state inp" w stT wT] that
    by (auto simp: get_state_def invoke_def steps_of_def)
  have fin: "drive svc Final_Response s v = ([(Final_Response, s, v)], final_response_agent svc s v)"
    for s v
    using final_response_agent_writes[of svc s v]
    by (auto simp: drive.simps[of svc Final_Response s v])
  have fil: "drive svc Filtering s v =
      (case filtering_agent svc s v of
         (Inl e, v') \<Rightarrow> ([(Filtering, s, v)], Inl e, v')
       | (Inr s', v') \<Rightarrow> ([(Filtering, s, v), (Final_Response, s', v')],
                           final_response_agent svc s' v'))"
    for s v
    by (simp add: drive.simps[of svc Filtering s v] fin split: prod.splits sum.splits)
  obtain p1 w1 where u: "user_interaction_agent svc (initial_state inp) w
      = (Inr ((initial_state inp)\<lparr>user_preferences := p1\<rparr>), w1)"
    using user_interaction_agent_writes[of svc "initial_state inp" w] by blast
  define s1 where "s1 = (initial_state inp)\<lparr>user_preferences := p1\<rparr>"
  obtain i2 w2 where r: "retrieval_agent svc s1 w1 = (Inr (s1\<lparr>retrieved_items := i2\<rparr>), w2)"
    using retrieval_agent_writes[of svc s1 w1] by blast
  define s2 where "s2 = s1\<lparr>retrieved_items := i2\<rparr>"
  have u': "user_interaction_agent svc (initial_state inp) w = (Inr s1, w1)"
    using u by (simp add: s1_def)
  have r': "retrieval_agent svc s1 w1 = (Inr s2, w2)"
    using r by (simp add: s2_def)
  have e1: "steps_of svc inp w = [(User_Interaction, initial_state inp, w), (Final_Response, s1, w1)]
      \<and> get_state svc inp w = final_response_agent svc s1 w1"
    if "user_preferences s1 = []"
    using that u'
    by (simp add: steps_of_def get_state_def invoke_def entry_point_def fin
        drive.simps[of svc User_Interaction "initial_state inp" w])
  have e2: "steps_of svc inp w
        = [(User_Interaction, initial_state inp, w), (Retrieval, s1, w1), (Final_Response, s2, w2)]
      \<and> get_state svc inp w = final_response_agent svc s2 w2"
    if "user_preferences s1 \<noteq> []" "retrieved_items s2 = []"
    using that u' r'
    by (simp add: steps_of_def get_state_def invoke_def entry_point_def fin
        drive.simps[of svc User_Interaction "initial_state inp" w]
        drive.simps[of svc Retrieval s1 w1])
  have e3: "steps_of svc inp w
        = [(User_Interaction, initial_state inp, w), (Retrieval, s1, w1), (Filtering, s2, w2)]
      \<and> get_state svc inp w = (Inl e, w3)"
    if "user_preferences s1 \<noteq> []" "retrieved_items s2 \<noteq> []"
      "filtering_agent svc s2 w2 = (Inl e, w3)" for e w3
    using that u' r'
    by (simp add: steps_of_def get_state_def invoke_def entry_point_def fil
        drive.simps[of svc User_Interaction "initial_state inp" w]
        drive.simps[of svc Retrieval s1 w1])
  have e4: "steps_of svc inp w
        = [(User_Interaction, initial_state inp, w), (Retrieval, s1, w1), (Filtering, s2, w2),
           (Final_Response, s3, w3)]
      \<and> get_state svc inp w = final_response_agent svc s3 w3"
    if "user_preferences s1 \<noteq> []" "retrieved_items s2 \<noteq> []"
      "filtering_agent svc s2 w2 = (Inr s3, w3)" for s3 w3
    using that u' r'
    by (simp add: steps_of_def get_state_def invoke_def entry_point_def fil
        drive.simps[of svc User_Interaction "initial_state inp" w]
        drive.simps[of svc Retrieval s1 w1])
  have routes: "\<exists>s1 w1. user_interaction_agent svc (initial_state inp) w = (Inr s1, w1)
        \<and> (user_preferences s1 = [] \<longrightarrow>
             steps_of svc inp w = [(User_Interaction, initial_state inp, w), (Final_Response, s1, w1)]
             \<and> get_state svc inp w = final_response_agent svc s1 w1)
        \<and> (user_preferences s1 \<noteq> [] \<longrightarrow>
             (\<exists>s2 w2. retrieval_agent svc s1 w1 = (Inr s2, w2)
                \<and> (retrieved_items s2 = [] \<longrightarrow>
                     steps_of svc inp w
                       = [(User_Interaction, initial_state inp, w), (Retrieval, s1, w1),
                          (Final_Response, s2, w2)]
                     \<and> get_state svc inp w = final_response_agent svc s2 w2)
                \<and> (retrieved_items s2 \<noteq> [] \<longrightarrow>
                     (\<forall>e w3. filtering_agent svc s2 w2 = (Inl e, w3) \<longrightarrow>
                        steps_of svc inp w
                          = [(User_Interaction, initial_state inp, w), (Retrieval, s1, w1),
                             (Filtering, s2, w2)]
                        \<and> get_state svc inp w = (Inl e, w3))
                     \<and> (\<forall>s3 w3. filtering_agent svc s2 w2 = (Inr s3, w3) \<longrightarrow>
                        steps_of svc inp w
                          = [(User_Interaction, initial_state inp, w), (Retrieval, s1, w1),
                             (Filtering, s2, w2), (Final_Response, s3, w3)]
                        \<and> get_state svc inp w = final_response_agent svc s3 w3))))"
    apply (rule exI[of _ s1], rule exI[of _ w1])
    apply (rule conjI, rule u')
    apply (rule conjI, use e1 in blast)
    apply (rule impI, rule exI[of _ s2], rule exI[of _ w2])
    apply (rule conjI, rule r')
    apply (rule conjI, use e2 in blast)
    apply (use e3 e4 in blast)
    done
  have t: "entry_point = User_Interaction
      \<and> next_node User_Interaction st =
          Some (if user_preferences st \<noteq> [] then Retrieval else Final_Response)
      \<and> next_node Retrieval st
          = Some (if retrieved_items st \<noteq> [] then Filtering else Final_Response)
      \<and> next_node Filtering st = Some Final_Response
      \<and> next_node Final_Response st = None"
    by (simp add: entry_point_def)
  have d': "\<forall>stT wT. get_state svc inp w = (Inr stT, wT) \<longrightarrow>
         fst (last (steps_of svc inp w)) = Final_Response"
    using d by blast
  from t a b c d' routes show ?thesis
    by (intro conjI) (elim conjE, assumption)+
qed

theorem workflow_routing_witness:
  "map fst (steps_of demo_services ''I like sci-fi movies'' [])
     = [User_Interaction, Retrieval, Filtering, Final_Response]
   \<and> map fst (steps_of chatty_services [] []) = [User_Interaction, Retrieval, Final_Response]
   \<and> map fst (steps_of strict_services [] []) = [User_Interaction, Final_Response]
   \<and> map fst (steps_of book_services ''I like sci-fi movies'' [])
     = [User_Interaction, Retrieval, Filtering]
   \<and> is_run demo_services (steps_of demo_services ''I like sci-fi movies'' [])
        (get_state demo_services ''I like sci-fi movies'' [])
   \<and> is_run chatty_services (steps_of chatty_services [] []) (get_state chatty_services [] [])
   \<and> is_run strict_services (steps_of strict_services [] []) (get_state strict_services [] [])
   \<and> is_run book_services (steps_of book_services ''I like sci-fi movies'' [])
        (get_state book_services ''I like sci-fi movies'' [])"
proof -
  have n1: "map fst (steps_of demo_services ''I like sci-fi movies'' [])
     = [User_Interaction, Retrieval, Filtering, Final_Response]"
    by code_simp
  have n2: "map fst (steps_of chatty_services [] []) = [User_Interaction, Retrieval, Final_Response]"
    by code_simp
  have n3: "map fst (steps_of strict_services [] []) = [User_Interaction, Final_Response]"
    by code_simp
  have n4: "map fst (steps_of book_services ''I like sci-fi movies'' [])
     = [User_Interaction, Retrieval, Filtering]"
    by code_simp
  note r = workflow_routing[THEN conjunct2, THEN conjunct2, THEN conjunct2, THEN conjunct2,
      THEN conjunct2, THEN conjunct2, THEN conjunct2, THEN conjunct1]
  show ?thesis
    by (intro conjI) (rule n1, rule n2, rule n3, rule n4, rule r, rule r, rule r, rule r)
qed

section \<open>The state of a run\<close>

text \<open>
  C7. The state is append-only within a run. A stage that returns changes no field but
  its own (\<open>user_preferences\<close> for User Interaction, \<open>retrieved_items\<close> for Retrieval,
  \<open>filtered_recommendations\<close> for Filtering, \<open>final_response\<close> for Final Response), so it
  leaves what earlier stages wrote as it is; at every step of a run, the field of the
  stage that starts and the fields of the stages after it are still empty and
  \<open>user_input\<close> is the input of the run; and \<open>user_input\<close> is the input of the run in the
  state that the run returns.
\<close>

theorem state_append_only:
  "(\<forall>st' w'. run_node svc n st w = (Inr st', w') \<longrightarrow>
       user_input st' = user_input st
     \<and> (n \<noteq> User_Interaction \<longrightarrow> user_preferences st' = user_preferences st)
     \<and> (n \<noteq> Retrieval \<longrightarrow> retrieved_items st' = retrieved_items st)
     \<and> (n \<noteq> Filtering \<longrightarrow> filtered_recommendations st' = filtered_recommendations st)
     \<and> (n \<noteq> Final_Response \<longrightarrow> final_response st' = final_response st))
   \<and> (\<forall>(m, s, w1)\<in>set (steps_of svc inp w0). user_input s = inp \<and> unwritten m s)
   \<and> (\<forall>stT wT. get_state svc inp w0 = (Inr stT, wT) \<longrightarrow> user_input stT = inp)"
proof -
  have i: "unwritten entry_point (initial_state inp)"
    by (simp add: entry_point_def initial_state_def)
  have s: "user_input s = inp \<and> unwritten m s" if "(m, s, w1) \<in> set (steps_of svc inp w0)" for m s w1
    using drive_steps_inv[of m s w1 svc entry_point "initial_state inp" w0] that i
    by (simp add: steps_of_def initial_state_def)
  have t: "user_input stT = inp" if g: "get_state svc inp w0 = (Inr stT, wT)" for stT wT
  proof -
    from g have o: "snd (drive svc entry_point (initial_state inp) w0) = (Inr stT, wT)"
      by (simp add: get_state_def invoke_def)
    from drive_last[OF o] obtain s w1 where
      l: "last (steps_of svc inp w0) = (Final_Response, s, w1)"
      and f: "final_response_agent svc s w1 = (Inr stT, wT)"
      by (auto simp: steps_of_def)
    have "steps_of svc inp w0 \<noteq> []"
      using drive_steps_hd[of svc entry_point "initial_state inp" w0] by (auto simp: steps_of_def)
    then have "(Final_Response, s, w1) \<in> set (steps_of svc inp w0)"
      using l last_in_set by metis
    then have "user_input s = inp" using s by blast
    moreover have "user_input stT = user_input s"
      using run_node_writes[of svc Final_Response s w1 stT wT] f by simp
    ultimately show ?thesis by simp
  qed
  show ?thesis
    using run_node_writes[of svc n st w] s t by blast
qed

theorem state_append_only_witness:
  "(\<exists>stT wT. get_state demo_services ''I like sci-fi movies'' [] = (Inr stT, wT)
      \<and> user_input stT = ''I like sci-fi movies''
      \<and> user_preferences stT = ''The user likes Sci-Fi movies and fantasy books.''
      \<and> length (retrieved_items stT) = 5
      \<and> filtered_recommendations stT = ''Dune, The Hobbit''
      \<and> final_response stT = ''You may enjoy Dune and The Hobbit.'')"
proof -
  obtain r wT where g: "get_state demo_services ''I like sci-fi movies'' [] = (r, wT)"
    by (cases "get_state demo_services ''I like sci-fi movies'' []")
  have "isl (fst (get_state demo_services ''I like sci-fi movies'' [])) = False"
    by code_simp
  with g obtain stT where r: "r = Inr stT" by (cases r) auto
  have p: "map_sum id user_preferences (fst (get_state demo_services ''I like sci-fi movies'' []))
      = Inr ''The user likes Sci-Fi movies and fantasy books.''"
    by code_simp
  have i: "map_sum id (\<lambda>s. length (retrieved_items s))
      (fst (get_state demo_services ''I like sci-fi movies'' [])) = Inr 5"
    by code_simp
  have f: "map_sum id filtered_recommendations
      (fst (get_state demo_services ''I like sci-fi movies'' [])) = Inr ''Dune, The Hobbit''"
    by code_simp
  have l: "map_sum id final_response
      (fst (get_state demo_services ''I like sci-fi movies'' []))
      = Inr ''You may enjoy Dune and The Hobbit.''"
    by code_simp
  have u: "user_input stT = ''I like sci-fi movies''"
    using state_append_only[where svc = demo_services and inp = "''I like sci-fi movies''"
        and ?w0.0 = "[]"] g r
    by blast
  show ?thesis
    using g r p i f l u by simp
qed

section \<open>Run and get_state\<close>

text \<open>
  C8. \<^verbatim>\<open>run\<close> returns the \<open>final_response\<close> field of the state that \<^verbatim>\<open>get_state\<close> returns
  for the same input in the same world: both invoke the graph on the same initial
  state, leave the world in the same state, and raise the same exception if the graph
  raises.
\<close>

theorem run_eq_final_response_of_get_state:
  "fst (run svc inp w) = map_sum id final_response (fst (get_state svc inp w))
   \<and> snd (run svc inp w) = snd (get_state svc inp w)
   \<and> get_state svc inp w = invoke svc (initial_state inp) w"
  by (simp add: run_def get_state_def split: prod.split sum.split)

section \<open>The catalog client\<close>

text \<open>
  C6, as amended. \<^verbatim>\<open>get_available_categories\<close> returns the genre labels of the store in
  lower case, each once, when the query succeeds and the genre of every row is a text.
  It fails with the status 500 when the query fails, and also when the query succeeds
  and the genre of some row is missing or is not a text (NULL, for one): it fails in
  these cases and in no other. A store without rows gives the empty list and no error. The world is left as
  the query leaves it.
\<close>

theorem get_available_categories_result:
  "snd (get_available_categories svc w) = snd (select_genre svc w)
   \<and> (\<forall>e. fst (select_genre svc w) = Inl e \<longrightarrow>
        fst (get_available_categories svc w)
          = Inl (HTTPException 500 ''Error fetching categories.''))
   \<and> (\<forall>data. fst (select_genre svc w) = Inr data \<longrightarrow>
        ((\<forall>r\<in>set data. genre_text r) \<longrightarrow>
           (\<exists>cs. fst (get_available_categories svc w) = Inr cs \<and> distinct cs
              \<and> set cs = (\<lambda>r. lower (genre_of r)) ` set data \<and> (\<forall>c\<in>set cs. lower c = c)))
        \<and> ((\<exists>r\<in>set data. \<not> genre_text r) \<longrightarrow>
             fst (get_available_categories svc w)
               = Inl (HTTPException 500 ''Error fetching categories.'')))
   \<and> (fst (select_genre svc w) = Inr [] \<longrightarrow> fst (get_available_categories svc w) = Inr [])
   \<and> (isl (fst (get_available_categories svc w)) \<longleftrightarrow>
        isl (fst (select_genre svc w))
        \<or> (\<exists>data. fst (select_genre svc w) = Inr data \<and> (\<exists>r\<in>set data. \<not> genre_text r)))"
proof -
  obtain q w' where s: "select_genre svc w = (q, w')"
    by (cases "select_genre svc w")
  have a: "snd (get_available_categories svc w) = snd (select_genre svc w)"
    using s by (simp add: get_available_categories_def split: sum.splits)
  have b: "fst (get_available_categories svc w)
      = Inl (HTTPException 500 ''Error fetching categories.'')"
    if "fst (select_genre svc w) = Inl e" for e
    using that s by (simp add: get_available_categories_def)
  have c: "\<exists>cs. fst (get_available_categories svc w) = Inr cs \<and> distinct cs
      \<and> set cs = (\<lambda>r. lower (genre_of r)) ` set data \<and> (\<forall>c\<in>set cs. lower c = c)"
    if q: "fst (select_genre svc w) = Inr data" and t: "\<forall>r\<in>set data. genre_text r" for data
  proof -
    have m: "map (\<lambda>r. case map_of r ''genre'' of Some (JStr v) \<Rightarrow> lower v | _ \<Rightarrow> []) data
        = map (\<lambda>r. lower (genre_of r)) data"
      using t by (auto simp: genre_text_def genre_of_def split: option.splits jval.splits)
    have l: "genre_labels data = Inr (map (\<lambda>r. lower (genre_of r)) data)"
      using genre_labels_ok[OF t] m by simp
    have g: "fst (get_available_categories svc w)
        = Inr (list_of_set (set_slot svc) (map (\<lambda>r. lower (genre_of r)) data))"
      using q s l by (cases "data = []") (simp_all add: get_available_categories_def list_of_set_def)
    show ?thesis
      using g list_of_set_props[of "set_slot svc" "map (\<lambda>r. lower (genre_of r)) data"]
      by (auto simp: lower_idem)
  qed
  have d: "fst (get_available_categories svc w)
      = Inl (HTTPException 500 ''Error fetching categories.'')"
    if q: "fst (select_genre svc w) = Inr data" and t: "\<exists>r\<in>set data. \<not> genre_text r" for data
  proof -
    from t have "data \<noteq> []" by auto
    moreover obtain e where "genre_labels data = Inl e"
      using genre_labels_raises[OF t] by blast
    ultimately show ?thesis
      using q s by (simp add: get_available_categories_def)
  qed
  have e: "fst (get_available_categories svc w) = Inr []"
    if "fst (select_genre svc w) = Inr []"
    using that s by (simp add: get_available_categories_def)
  have f: "isl (fst (get_available_categories svc w)) \<longleftrightarrow>
        isl (fst (select_genre svc w))
        \<or> (\<exists>data. fst (select_genre svc w) = Inr data \<and> (\<exists>r\<in>set data. \<not> genre_text r))"
  proof (cases q)
    case (Inl x)
    with s b[of x] show ?thesis by simp
  next
    case (Inr data)
    show ?thesis
    proof (cases "\<forall>r\<in>set data. genre_text r")
      case True
      with c[of data] s Inr show ?thesis by auto
    next
      case False
      with d[of data] s Inr show ?thesis by auto
    qed
  qed
  from a b c d e f show ?thesis by blast
qed

theorem get_available_categories_result_witness:
  "fst (get_available_categories demo_services []) = Inr [''sci-fi'', ''fantasy'']
   \<and> (\<exists>cs. fst (get_available_categories demo_services []) = Inr cs \<and> distinct cs
         \<and> set cs = (\<lambda>r. lower (genre_of r)) ` set (store_genre demo_table))
   \<and> fst (get_available_categories no_categories_services [])
       = Inl (HTTPException 500 ''Error fetching categories.'')
   \<and> fst (get_available_categories (store_services demo_llm []) []) = Inr []"
proof -
  have q1: "fst (select_genre demo_services []) = Inr (store_genre demo_table)"
    by (simp add: demo_services_def store_services_def logged_services_def)
  have t1: "\<forall>r\<in>set (store_genre demo_table). genre_text r"
    by (simp add: store_genre_def demo_table_def document_def genre_text_def)
  have c1: "fst (get_available_categories demo_services []) = Inr [''sci-fi'', ''fantasy'']"
    by code_simp
  have q2: "fst (select_genre no_categories_services []) = Inl (ClientError ''connection refused'')"
    by (simp add: no_categories_services_def logged_services_def)
  have q3: "fst (select_genre (store_services demo_llm []) []) = Inr []"
    by (simp add: store_services_def logged_services_def store_genre_def)
  from get_available_categories_result[of demo_services "[]"] q1 t1
  have r1: "\<exists>cs. fst (get_available_categories demo_services []) = Inr cs \<and> distinct cs
         \<and> set cs = (\<lambda>r. lower (genre_of r)) ` set (store_genre demo_table)"
    by blast
  from get_available_categories_result[of no_categories_services "[]"] q2
  have r2: "fst (get_available_categories no_categories_services [])
       = Inl (HTTPException 500 ''Error fetching categories.'')"
    by blast
  from get_available_categories_result[of "store_services demo_llm []" "[]"] q3
  have r3: "fst (get_available_categories (store_services demo_llm []) []) = Inr []"
    by blast
  show ?thesis
    by (intro conjI) (rule c1, rule r1, rule r2, rule r3)
qed

theorem get_available_categories_counterexample:
  "fst (select_genre null_genre_services [])
     = Inr [[(''genre'', JStr ''Sci-Fi'')], [(''genre'', JNull)]]
   \<and> fst (get_available_categories null_genre_services [])
     = Inl (HTTPException 500 ''Error fetching categories.'')"
proof -
  have a: "fst (select_genre null_genre_services [])
     = Inr [[(''genre'', JStr ''Sci-Fi'')], [(''genre'', JNull)]]"
    by code_simp
  have b: "fst (get_available_categories null_genre_services [])
     = Inl (HTTPException 500 ''Error fetching categories.'')"
    by code_simp
  show ?thesis
    by (intro conjI) (rule a, rule b)
qed

text \<open>
  C4, as amended. \<^verbatim>\<open>query_documents\<close> asks the store for the rows whose genre matches
  each category, one query for each category in the order of the categories, and
  returns the answers one after the other: nothing is removed, so a row that two
  categories match occurs twice, and the number of rows is the sum over the categories.
  Without categories it returns the empty list and makes no query. When the first of
  two categories has the matches \<open>d1\<close> and the second the matches \<open>d2\<close>, the result is
  \<open>d1\<close> followed by \<open>d2\<close>: three rows and two rows give five rows, grouped by category.
  The category is the pattern of the store's filter \<^verbatim>\<open>ilike\<close> as it is, without a
  wildcard added: against a store that holds a table, a category without pattern
  characters matches the rows whose genre is equal to the category as a whole when
  case is ignored, and no row whose genre only contains it.
\<close>

theorem query_documents_per_category:
  "query_documents svc [] w = (Inr [], w)
   \<and> query_documents svc genres w =
       (case matches_per_category svc genres w of
          (Inl e, w') \<Rightarrow> (Inl (HTTPException 500 ''Database query error.''), w')
        | (Inr ds, w') \<Rightarrow> (Inr (concat ds), w'))
   \<and> (\<forall>ds w' rows. matches_per_category svc genres w = (Inr ds, w') \<longrightarrow>
         fst (query_documents svc genres w) = Inr rows \<longrightarrow>
         length ds = length genres \<and> length rows = sum_list (map length ds))
   \<and> (\<forall>d1 w1 d2 w2. select_all_ilike svc g1 w = (Inr d1, w1) \<longrightarrow>
         select_all_ilike svc g2 w1 = (Inr d2, w2) \<longrightarrow>
         query_documents svc [g1, g2] w = (Inr (d1 @ d2), w2)
         \<and> (length d1 = 3 \<longrightarrow> length d2 = 2 \<longrightarrow>
              length (d1 @ d2) = 5 \<and> take 3 (d1 @ d2) = d1 \<and> drop 3 (d1 @ d2) = d2))
   \<and> (serves_table svc table \<longrightarrow>
         fst (query_documents svc genres w) = Inr (concat (map (store_ilike table) genres)))
   \<and> (plain g \<longrightarrow> store_ilike table g = filter (genre_is g) table)"
proof -
  have e: "query_documents svc [] w = (Inr [], w)"
    by (simp add: query_documents_def)
  have l: "length ds = length genres"
    if "matches_per_category svc genres w = (Inr ds, w')" for ds w'
    using that
    by (induction genres arbitrary: w ds) (auto split: prod.splits sum.splits)
  have n: "length ds = length genres \<and> length rows = sum_list (map length ds)"
    if "matches_per_category svc genres w = (Inr ds, w')"
      "fst (query_documents svc genres w) = Inr rows" for ds w' rows
    using that l[OF that(1)] by (auto simp: query_documents_matches length_concat)
  have t: "query_documents svc [g1, g2] w = (Inr (d1 @ d2), w2)
      \<and> (length d1 = 3 \<longrightarrow> length d2 = 2 \<longrightarrow>
           length (d1 @ d2) = 5 \<and> take 3 (d1 @ d2) = d1 \<and> drop 3 (d1 @ d2) = d2)"
    if "select_all_ilike svc g1 w = (Inr d1, w1)" "select_all_ilike svc g2 w1 = (Inr d2, w2)"
    for d1 w1 d2 w2
    using that by (simp add: query_documents_matches)
  have m: "fst (matches_per_category svc gs v) = Inr (map (store_ilike table) gs)"
    if s: "serves_table svc table" for gs v
  proof (induction gs arbitrary: v)
    case Nil
    then show ?case by simp
  next
    case (Cons a gs)
    obtain v1 where a: "select_all_ilike svc a v = (Inr (store_ilike table a), v1)"
      using s unfolding serves_table_def
      by (metis prod.collapse)
    obtain v2 where "matches_per_category svc gs v1 = (Inr (map (store_ilike table) gs), v2)"
      using Cons.IH[of v1] by (metis prod.collapse)
    with a show ?case by simp
  qed
  have q: "fst (query_documents svc genres w) = Inr (concat (map (store_ilike table) genres))"
    if s: "serves_table svc table"
  proof -
    obtain v where "matches_per_category svc genres w = (Inr (map (store_ilike table) genres), v)"
      using m[OF s, of genres w] by (metis prod.collapse)
    then show ?thesis by (simp add: query_documents_matches)
  qed
  have p: "store_ilike table g = filter (genre_is g) table" if "plain g"
    using store_ilike_plain[OF that] .
  from e query_documents_matches[of svc genres w] n t q p show ?thesis
    by blast
qed

theorem query_documents_per_category_witness:
  "serves_table demo_services demo_table \<and> plain ''sci-fi'' \<and> plain ''fantasy''
   \<and> query_documents demo_services [''sci-fi'', ''fantasy''] []
     = (Inr [document ''Dune'' (JStr ''Frank Herbert'') (JStr ''Denis Villeneuve'') ''Sci-Fi'',
             document ''Solaris'' (JStr ''Stanislaw Lem'') (JStr ''Andrei Tarkovsky'') ''Sci-Fi'',
             document ''Neuromancer'' (JStr ''William Gibson'') JNull ''sci-fi'',
             document ''The Hobbit'' (JStr ''J. R. R. Tolkien'') (JStr ''Peter Jackson'') ''Fantasy'',
             document ''Earthsea'' (JStr ''Ursula K. Le Guin'') JNull ''fantasy''],
        [''ilike sci-fi'', ''ilike fantasy''])
   \<and> fst (query_documents demo_services [''sci-fi'', ''fantasy''] [])
     = Inr (filter (genre_is ''sci-fi'') demo_table @ filter (genre_is ''fantasy'') demo_table)"
proof -
  have s: "serves_table demo_services demo_table"
    by (simp add: serves_table_def demo_services_def store_services_def logged_services_def)
  have p1: "plain ''sci-fi''" by (simp add: plain_def)
  have p2: "plain ''fantasy''" by (simp add: plain_def)
  have v: "query_documents demo_services [''sci-fi'', ''fantasy''] []
     = (Inr [document ''Dune'' (JStr ''Frank Herbert'') (JStr ''Denis Villeneuve'') ''Sci-Fi'',
             document ''Solaris'' (JStr ''Stanislaw Lem'') (JStr ''Andrei Tarkovsky'') ''Sci-Fi'',
             document ''Neuromancer'' (JStr ''William Gibson'') JNull ''sci-fi'',
             document ''The Hobbit'' (JStr ''J. R. R. Tolkien'') (JStr ''Peter Jackson'') ''Fantasy'',
             document ''Earthsea'' (JStr ''Ursula K. Le Guin'') JNull ''fantasy''],
        [''ilike sci-fi'', ''ilike fantasy''])"
    by code_simp
  note r = query_documents_per_category[where svc = demo_services and table = demo_table]
  have a: "fst (query_documents demo_services [''sci-fi'', ''fantasy''] [])
      = Inr (concat (map (store_ilike demo_table) [''sci-fi'', ''fantasy'']))"
    using r[where genres = "[''sci-fi'', ''fantasy'']" and w = "[]"] s by blast
  have b1: "store_ilike demo_table ''sci-fi'' = filter (genre_is ''sci-fi'') demo_table"
    using r[where g = "''sci-fi''"] p1 by blast
  have b2: "store_ilike demo_table ''fantasy'' = filter (genre_is ''fantasy'') demo_table"
    using r[where g = "''fantasy''"] p2 by blast
  have c: "fst (query_documents demo_services [''sci-fi'', ''fantasy''] [])
     = Inr (filter (genre_is ''sci-fi'') demo_table @ filter (genre_is ''fantasy'') demo_table)"
    unfolding a by (simp add: b1 b2)
  show ?thesis
    by (intro conjI) (rule s, rule p1, rule p2, rule v, rule c)
qed

theorem query_documents_partial_counterexample:
  "map genre_of horror_table = [''Sci-Fi'', ''Sci-Fi Horror'']
   \<and> fst (query_documents horror_services [''sci-fi''] [])
     = Inr [document ''Dune'' (JStr ''Frank Herbert'') (JStr ''Denis Villeneuve'') ''Sci-Fi'']"
proof -
  have a: "map genre_of horror_table = [''Sci-Fi'', ''Sci-Fi Horror'']"
    by code_simp
  have b: "fst (query_documents horror_services [''sci-fi''] [])
     = Inr [document ''Dune'' (JStr ''Frank Herbert'') (JStr ''Denis Villeneuve'') ''Sci-Fi'']"
    by code_simp
  show ?thesis
    by (intro conjI) (rule a, rule b)
qed

text \<open>
  C10. When a query of \<^verbatim>\<open>query_documents\<close> fails after the queries for earlier categories
  have returned their matches, \<^verbatim>\<open>query_documents\<close> raises (status 500) and the matches
  collected so far are lost: no partial list is returned. The handler of the retrieval
  stage then returns the state as it was, and in a run the state that the run returns
  has no retrieved items.
\<close>

theorem query_failure_discards_matches:
  assumes "query_documents svc gs1 w = (Inr acc, w1)"
      and "select_all_ilike svc g w1 = (Inl e, w2)"
  shows "query_documents svc (gs1 @ g # gs2) w
           = (Inl (HTTPException 500 ''Database query error.''), w2)
     \<and> (\<forall>st w0 available. get_available_categories svc w0 = (Inr available, w) \<longrightarrow>
          selected_categories available (user_preferences st) = gs1 @ g # gs2 \<longrightarrow>
          retrieval_agent svc st w0 = (Inr st, w2)
          \<and> (\<forall>inp wi. (Retrieval, st, w0) \<in> set (steps_of svc inp wi) \<longrightarrow>
                (\<exists>stT wT. get_state svc inp wi = (Inr stT, wT) \<and> retrieved_items stT = [])))"
proof -
  have q: "query_documents svc (gs1 @ g # gs2) w
      = (Inl (HTTPException 500 ''Database query error.''), w2)"
    using query_documents_fail_partway[OF assms] .
  have r: "retrieval_agent svc st w0 = (Inr st, w2)"
    if "get_available_categories svc w0 = (Inr available, w)"
      "selected_categories available (user_preferences st) = gs1 @ g # gs2"
    for st w0 available
    using that q by (simp add: retrieval_agent_def retrieval_try_def)
  have t: "\<exists>stT wT. get_state svc inp wi = (Inr stT, wT) \<and> retrieved_items stT = []"
    if a: "retrieval_agent svc st w0 = (Inr st, w2)"
      and m: "(Retrieval, st, w0) \<in> set (steps_of svc inp wi)"
    for st w0 inp wi
  proof -
    have m': "(Retrieval, st, w0) \<in> set (fst (drive svc entry_point (initial_state inp) wi))"
      using m by (simp add: steps_of_def)
    have "unwritten entry_point (initial_state inp)"
      by (simp add: entry_point_def initial_state_def)
    from drive_steps_inv[OF m' this] have u: "retrieved_items st = []" by simp
    have "get_state svc inp wi = snd (drive svc Retrieval st w0)"
      using drive_outcome_suffix[OF m'] by (simp add: get_state_def invoke_def)
    also have "\<dots> = snd (drive svc Final_Response st w2)"
      using a u by (simp add: drive.simps[of svc Retrieval st w0] split: prod.split)
    finally have g: "get_state svc inp wi = snd (drive svc Final_Response st w2)" .
    obtain v w' where "drive svc Final_Response st w2
        = ([(Final_Response, st, w2)], Inr (st\<lparr>final_response := v\<rparr>), w')"
      using drive_final[of svc st w2] by blast
    with g u show ?thesis by simp
  qed
  show ?thesis
    using q r t by blast
qed

theorem query_failure_discards_matches_witness:
  "query_documents flaky_services [''sci-fi''] [''invoke'', ''select genre'']
     = (Inr [document ''Dune'' (JStr ''Frank Herbert'') (JStr ''Denis Villeneuve'') ''Sci-Fi'',
             document ''Solaris'' (JStr ''Stanislaw Lem'') (JStr ''Andrei Tarkovsky'') ''Sci-Fi'',
             document ''Neuromancer'' (JStr ''William Gibson'') JNull ''sci-fi''],
        [''invoke'', ''select genre'', ''ilike sci-fi''])
   \<and> select_all_ilike flaky_services ''fantasy'' [''invoke'', ''select genre'', ''ilike sci-fi'']
     = (Inl (ClientError ''timeout''),
        [''invoke'', ''select genre'', ''ilike sci-fi'', ''ilike fantasy''])
   \<and> query_documents flaky_services [''sci-fi'', ''fantasy''] [''invoke'', ''select genre'']
     = (Inl (HTTPException 500 ''Database query error.''),
        [''invoke'', ''select genre'', ''ilike sci-fi'', ''ilike fantasy''])
   \<and> map_sum id retrieved_items (fst (get_state flaky_services ''I like sci-fi movies'' []))
     = Inr []"
proof -
  have a: "query_documents flaky_services [''sci-fi''] [''invoke'', ''select genre'']
     = (Inr [document ''Dune'' (JStr ''Frank Herbert'') (JStr ''Denis Villeneuve'') ''Sci-Fi'',
             document ''Solaris'' (JStr ''Stanislaw Lem'') (JStr ''Andrei Tarkovsky'') ''Sci-Fi'',
             document ''Neuromancer'' (JStr ''William Gibson'') JNull ''sci-fi''],
        [''invoke'', ''select genre'', ''ilike sci-fi''])"
    by code_simp
  have b: "select_all_ilike flaky_services ''fantasy''
       [''invoke'', ''select genre'', ''ilike sci-fi'']
     = (Inl (ClientError ''timeout''),
        [''invoke'', ''select genre'', ''ilike sci-fi'', ''ilike fantasy''])"
    by code_simp
  have c: "map_sum id retrieved_items (fst (get_state flaky_services ''I like sci-fi movies'' []))
     = Inr []"
    by code_simp
  from query_failure_discards_matches[OF a b, of "[]"]
  have "query_documents flaky_services ([''sci-fi''] @ [''fantasy'']) [''invoke'', ''select genre'']
     = (Inl (HTTPException 500 ''Database query error.''),
        [''invoke'', ''select genre'', ''ilike sci-fi'', ''ilike fantasy''])"
    by blast
  with a b c show ?thesis by simp
qed

section \<open>The retrieval stage\<close>

text \<open>
  C3. The retrieval stage selects exactly the available categories that are whole words
  of the preference text in lower case, in the order of the available categories: the
  text is compared without regard to case, word by word, and a category that is only a
  part of a word is not selected. When some category is selected, the stage queries
  the store for the selected categories and no others. When no
  available category is a word of the preference text, the stage sets \<open>retrieved_items\<close>
  to the empty list, the only call it makes is the query for the categories (the world
  is as that query leaves it, so \<^verbatim>\<open>query_documents\<close> is not called), and the edge after
  Retrieval leads to Final Response.
\<close>

theorem retrieval_selects_whole_tokens:
  "(c \<in> set (selected_categories available prefs)
      \<longleftrightarrow> c \<in> set available \<and> is_token c (lower prefs))
   \<and> selected_categories available prefs = filter (\<lambda>c. is_token c (lower prefs)) available
   \<and> (\<forall>cats w1. get_available_categories svc w = (Inr cats, w1) \<longrightarrow>
        (\<forall>c\<in>set cats. \<not> is_token c (lower (user_preferences st))) \<longrightarrow>
        retrieval_agent svc st w = (Inr (st\<lparr>retrieved_items := []\<rparr>), w1)
        \<and> w1 = snd (select_genre svc w)
        \<and> next_node Retrieval (st\<lparr>retrieved_items := []\<rparr>) = Some Final_Response)
   \<and> (\<forall>cats w1. get_available_categories svc w = (Inr cats, w1) \<longrightarrow>
        selected_categories cats (user_preferences st) \<noteq> [] \<longrightarrow>
        retrieval_agent svc st w =
          (case query_documents svc (selected_categories cats (user_preferences st)) w1 of
             (Inl e, w2) \<Rightarrow> (Inr st, w2)
           | (Inr items, w2) \<Rightarrow> (Inr (st\<lparr>retrieved_items := items\<rparr>), w2)))"
proof -
  have f: "selected_categories cs p = filter (\<lambda>c. is_token c (lower p)) cs" for cs p
    by (simp add: selected_categories_def split_token_iff)
  have a: "c \<in> set (selected_categories cs p) \<longleftrightarrow> c \<in> set cs \<and> is_token c (lower p)"
    for c cs p
    by (simp add: f)
  have b: "retrieval_agent svc st w = (Inr (st\<lparr>retrieved_items := []\<rparr>), w1)
        \<and> w1 = snd (select_genre svc w)
        \<and> next_node Retrieval (st\<lparr>retrieved_items := []\<rparr>) = Some Final_Response"
    if g: "get_available_categories svc w = (Inr cats, w1)"
      and n: "\<forall>c\<in>set cats. \<not> is_token c (lower (user_preferences st))"
    for cats w1
  proof -
    from n have "filter (\<lambda>c. is_token c (lower (user_preferences st))) cats = []"
      by (simp add: filter_empty_conv)
    then have s: "selected_categories cats (user_preferences st) = []"
      by (simp add: f)
    have "w1 = snd (select_genre svc w)"
      using g get_available_categories_world[of svc w] by simp
    moreover have "retrieval_agent svc st w = (Inr (st\<lparr>retrieved_items := []\<rparr>), w1)"
      using retrieval_agent_unfold[OF g, of st] s by simp
    ultimately show ?thesis by simp
  qed
  have d: "retrieval_agent svc st w =
          (case query_documents svc (selected_categories cats (user_preferences st)) w1 of
             (Inl e, w2) \<Rightarrow> (Inr st, w2)
           | (Inr items, w2) \<Rightarrow> (Inr (st\<lparr>retrieved_items := items\<rparr>), w2))"
    if "get_available_categories svc w = (Inr cats, w1)"
      "selected_categories cats (user_preferences st) \<noteq> []"
    for cats w1
    using retrieval_agent_unfold[OF that(1), of st] that(2) by simp
  have b': "\<forall>cats w1. get_available_categories svc w = (Inr cats, w1) \<longrightarrow>
        (\<forall>c\<in>set cats. \<not> is_token c (lower (user_preferences st))) \<longrightarrow>
        retrieval_agent svc st w = (Inr (st\<lparr>retrieved_items := []\<rparr>), w1)
        \<and> w1 = snd (select_genre svc w)
        \<and> next_node Retrieval (st\<lparr>retrieved_items := []\<rparr>) = Some Final_Response"
    by (intro allI impI) (rule b)
  have d': "\<forall>cats w1. get_available_categories svc w = (Inr cats, w1) \<longrightarrow>
        selected_categories cats (user_preferences st) \<noteq> [] \<longrightarrow>
        retrieval_agent svc st w =
          (case query_documents svc (selected_categories cats (user_preferences st)) w1 of
             (Inl e, w2) \<Rightarrow> (Inr st, w2)
           | (Inr items, w2) \<Rightarrow> (Inr (st\<lparr>retrieved_items := items\<rparr>), w2))"
    by (intro allI impI) (rule d)
  show ?thesis
    by (intro conjI) (rule a, rule f, rule b', rule d')
qed

theorem retrieval_selects_whole_tokens_witness:
  "selected_categories [''sci-fi'', ''fantasy''] ''I love SCI-FI films and fantasy-like sagas''
     = [''sci-fi'']
   \<and> is_token ''sci-fi'' (lower ''I love SCI-FI films and fantasy-like sagas'')
   \<and> \<not> is_token ''fantasy'' (lower ''I love SCI-FI films and fantasy-like sagas'')
   \<and> get_available_categories chatty_services [''invoke'']
       = (Inr [''sci-fi'', ''fantasy''], [''invoke'', ''select genre''])
   \<and> retrieval_agent chatty_services
        ((initial_state [])\<lparr>user_preferences := ''Please tell me what you like.''\<rparr>) [''invoke'']
       = (Inr ((initial_state [])\<lparr>user_preferences := ''Please tell me what you like.'',
                                 retrieved_items := []\<rparr>),
          [''invoke'', ''select genre''])"
proof -
  note words = retrieval_selects_whole_tokens[THEN conjunct1]
  have s: "selected_categories [''sci-fi'', ''fantasy'']
      ''I love SCI-FI films and fantasy-like sagas'' = [''sci-fi'']"
    by code_simp
  have t1: "is_token ''sci-fi'' (lower ''I love SCI-FI films and fantasy-like sagas'')"
    using words[of "''sci-fi''" "[''sci-fi'', ''fantasy'']"
        "''I love SCI-FI films and fantasy-like sagas''"]
    unfolding s by simp
  have t2: "\<not> is_token ''fantasy'' (lower ''I love SCI-FI films and fantasy-like sagas'')"
    using words[of "''fantasy''" "[''sci-fi'', ''fantasy'']"
        "''I love SCI-FI films and fantasy-like sagas''"]
    unfolding s by simp
  have g: "get_available_categories chatty_services [''invoke'']
       = (Inr [''sci-fi'', ''fantasy''], [''invoke'', ''select genre''])"
    by code_simp
  have e: "selected_categories [''sci-fi'', ''fantasy''] ''Please tell me what you like.'' = []"
    by code_simp
  have n0: "\<not> is_token c (lower ''Please tell me what you like.'')"
    if "c \<in> set [''sci-fi'', ''fantasy'']" for c
    using words[of c "[''sci-fi'', ''fantasy'']" "''Please tell me what you like.''"] that
    unfolding e by auto
  have n: "\<forall>c\<in>set [''sci-fi'', ''fantasy''].
      \<not> is_token c (lower (user_preferences
            ((initial_state [])\<lparr>user_preferences := ''Please tell me what you like.''\<rparr>)))"
  proof
    fix c assume "c \<in> set [''sci-fi'', ''fantasy'']"
    from n0[OF this] show "\<not> is_token c (lower (user_preferences
            ((initial_state [])\<lparr>user_preferences := ''Please tell me what you like.''\<rparr>)))"
      by simp
  qed
  note r = retrieval_selects_whole_tokens[where svc = chatty_services and w = "[''invoke'']"
      and st = "(initial_state [])\<lparr>user_preferences := ''Please tell me what you like.''\<rparr>",
      THEN conjunct2, THEN conjunct2, THEN conjunct1, rule_format, OF g n[rule_format], THEN conjunct1]
  show ?thesis
    by (intro conjI) (rule s, rule t1, rule t2, rule g, rule r)
qed

section \<open>The filtering stage\<close>

text \<open>
  C9. In the filtering stage the items are formatted before the \<^verbatim>\<open>try\<close> block, which
  holds the call of the language model only. The stage raises exactly when the
  formatting raises, which is exactly when a retrieved item lacks one of the fields
  \<open>title\<close>, \<open>author\<close>, \<open>director\<close> and \<open>genre\<close>. When every item has the four fields, the
  stage is its handler around the call of the model. When an item lacks a field, the
  stage raises a \<open>KeyError\<close> for one of the four keys without calling the model, and a
  run that reaches the stage in such a state raises this error from \<^verbatim>\<open>get_state\<close> and
  from \<^verbatim>\<open>run\<close>: \<open>filtered_recommendations\<close> is not left empty, no state is returned. Every
  run whose retrieval stage returns an item that lacks a field reaches the filtering
  stage and raises so.
\<close>

theorem filtering_raises_on_missing_field:
  "isl (fst (filtering_agent svc st w)) = isl (format_items (retrieved_items st))
   \<and> (isl (format_items (retrieved_items st))
        \<longleftrightarrow> (\<exists>item\<in>set (retrieved_items st). \<not> has_fields item))
   \<and> ((\<forall>item\<in>set (retrieved_items st). has_fields item) \<longrightarrow>
        (\<exists>ls. format_items (retrieved_items st) = Inr ls
           \<and> filtering_agent svc st w =
               (case filtering_try svc st (join [CHR 0x0A] ls) w of
                  (Inl e, w') \<Rightarrow> (Inr st, w')
                | (Inr st', w') \<Rightarrow> (Inr st', w'))))
   \<and> ((\<exists>item\<in>set (retrieved_items st). \<not> has_fields item) \<longrightarrow>
        (\<exists>k\<in>{''title'', ''author'', ''director'', ''genre''}.
           filtering_agent svc st w = (Inl (KeyError k), w)
           \<and> (\<forall>inp w0. (Filtering, st, w) \<in> set (steps_of svc inp w0) \<longrightarrow>
                 get_state svc inp w0 = (Inl (KeyError k), w)
                 \<and> run svc inp w0 = (Inl (KeyError k), w))))
   \<and> (\<forall>inp w0 s1 w1 s2 w2. (Retrieval, s1, w1) \<in> set (steps_of svc inp w0) \<longrightarrow>
         retrieval_agent svc s1 w1 = (Inr s2, w2) \<longrightarrow>
         (\<exists>item\<in>set (retrieved_items s2). \<not> has_fields item) \<longrightarrow>
         (\<exists>k\<in>{''title'', ''author'', ''director'', ''genre''}.
            get_state svc inp w0 = (Inl (KeyError k), w2)
            \<and> run svc inp w0 = (Inl (KeyError k), w2)))"
proof -
  have a: "isl (fst (filtering_agent svc st w)) = isl (format_items (retrieved_items st))"
    by (simp add: filtering_agent_def split: prod.splits sum.splits)
  have b: "isl (format_items (retrieved_items st))
        \<longleftrightarrow> (\<exists>item\<in>set (retrieved_items st). \<not> has_fields item)"
  proof
    assume "isl (format_items (retrieved_items st))"
    then obtain e where "format_items (retrieved_items st) = Inl e"
      by (cases "format_items (retrieved_items st)") simp_all
    from format_items_error[OF this] show "\<exists>item\<in>set (retrieved_items st). \<not> has_fields item"
      by simp
  next
    assume "\<exists>item\<in>set (retrieved_items st). \<not> has_fields item"
    from format_items_raises[OF this] show "isl (format_items (retrieved_items st))"
      by auto
  qed
  have c: "\<exists>ls. format_items (retrieved_items st) = Inr ls
           \<and> filtering_agent svc st w =
               (case filtering_try svc st (join [CHR 0x0A] ls) w of
                  (Inl e, w') \<Rightarrow> (Inr st, w')
                | (Inr st', w') \<Rightarrow> (Inr st', w'))"
    if h: "\<forall>item\<in>set (retrieved_items st). has_fields item"
  proof -
    obtain ls where "format_items (retrieved_items st) = Inr ls"
      using format_items_ok[OF h] by blast
    then show ?thesis by (simp add: filtering_agent_def)
  qed
  have d: "\<exists>k\<in>{''title'', ''author'', ''director'', ''genre''}.
           filtering_agent svc st w = (Inl (KeyError k), w)
           \<and> (\<forall>inp w0. (Filtering, st, w) \<in> set (steps_of svc inp w0) \<longrightarrow>
                 get_state svc inp w0 = (Inl (KeyError k), w)
                 \<and> run svc inp w0 = (Inl (KeyError k), w))"
    if m: "\<exists>item\<in>set (retrieved_items st). \<not> has_fields item"
  proof -
    obtain k where k: "k \<in> {''title'', ''author'', ''director'', ''genre''}"
      and f: "format_items (retrieved_items st) = Inl (KeyError k)"
      using format_items_raises[OF m] by blast
    have g: "filtering_agent svc st w = (Inl (KeyError k), w)"
      using f by (simp add: filtering_agent_def)
    have r: "get_state svc inp w0 = (Inl (KeyError k), w) \<and> run svc inp w0 = (Inl (KeyError k), w)"
      if s: "(Filtering, st, w) \<in> set (steps_of svc inp w0)" for inp w0
    proof -
      have "get_state svc inp w0 = snd (drive svc Filtering st w)"
        using drive_outcome_suffix[of Filtering st w svc entry_point "initial_state inp" w0] s
        by (simp add: get_state_def invoke_def steps_of_def)
      also have "\<dots> = (Inl (KeyError k), w)"
        using g by (simp add: drive.simps[of svc Filtering st w])
      finally have "get_state svc inp w0 = (Inl (KeyError k), w)" .
      then show ?thesis by (simp add: run_def get_state_def)
    qed
    from k g r show ?thesis by blast
  qed
  have c': "(\<forall>item\<in>set (retrieved_items st). has_fields item) \<longrightarrow>
        (\<exists>ls. format_items (retrieved_items st) = Inr ls
           \<and> filtering_agent svc st w =
               (case filtering_try svc st (join [CHR 0x0A] ls) w of
                  (Inl e, w') \<Rightarrow> (Inr st, w')
                | (Inr st', w') \<Rightarrow> (Inr st', w')))"
    by (rule impI) (rule c)
  have d': "(\<exists>item\<in>set (retrieved_items st). \<not> has_fields item) \<longrightarrow>
        (\<exists>k\<in>{''title'', ''author'', ''director'', ''genre''}.
           filtering_agent svc st w = (Inl (KeyError k), w)
           \<and> (\<forall>inp w0. (Filtering, st, w) \<in> set (steps_of svc inp w0) \<longrightarrow>
                 get_state svc inp w0 = (Inl (KeyError k), w)
                 \<and> run svc inp w0 = (Inl (KeyError k), w)))"
    by (rule impI) (rule d)
  have e: "\<exists>k\<in>{''title'', ''author'', ''director'', ''genre''}.
            get_state svc inp w0 = (Inl (KeyError k), w2)
            \<and> run svc inp w0 = (Inl (KeyError k), w2)"
    if s: "(Retrieval, s1, w1) \<in> set (steps_of svc inp w0)"
      and r: "retrieval_agent svc s1 w1 = (Inr s2, w2)"
      and m: "\<exists>item\<in>set (retrieved_items s2). \<not> has_fields item"
    for inp w0 s1 w1 s2 w2
  proof -
    obtain k where k: "k \<in> {''title'', ''author'', ''director'', ''genre''}"
      and f: "format_items (retrieved_items s2) = Inl (KeyError k)"
      using format_items_raises[OF m] by blast
    from m have n: "retrieved_items s2 \<noteq> []" by auto
    have "get_state svc inp w0 = snd (drive svc Retrieval s1 w1)"
      using drive_outcome_suffix[of Retrieval s1 w1 svc entry_point "initial_state inp" w0] s
      by (simp add: get_state_def invoke_def steps_of_def)
    also have "\<dots> = snd (drive svc Filtering s2 w2)"
      using r n by (simp add: drive.simps[of svc Retrieval s1 w1] split: prod.split)
    also have "\<dots> = (Inl (KeyError k), w2)"
      using f by (simp add: drive.simps[of svc Filtering s2 w2] filtering_agent_def)
    finally have g: "get_state svc inp w0 = (Inl (KeyError k), w2)" .
    then have "run svc inp w0 = (Inl (KeyError k), w2)"
      by (simp add: run_def get_state_def)
    with k g show ?thesis by blast
  qed
  have e': "\<forall>inp w0 s1 w1 s2 w2. (Retrieval, s1, w1) \<in> set (steps_of svc inp w0) \<longrightarrow>
         retrieval_agent svc s1 w1 = (Inr s2, w2) \<longrightarrow>
         (\<exists>item\<in>set (retrieved_items s2). \<not> has_fields item) \<longrightarrow>
         (\<exists>k\<in>{''title'', ''author'', ''director'', ''genre''}.
            get_state svc inp w0 = (Inl (KeyError k), w2)
            \<and> run svc inp w0 = (Inl (KeyError k), w2))"
    by (intro allI impI) (rule e)
  show ?thesis
    by (intro conjI) (rule a, rule b, rule c', rule d', rule e')
qed

theorem filtering_raises_on_missing_field_witness:
  "(Filtering,
    \<lparr>user_input = ''I like sci-fi movies'',
     user_preferences = ''The user likes Sci-Fi movies and fantasy books.'',
     retrieved_items = book_table, filtered_recommendations = [], final_response = []\<rparr>,
    [''invoke'', ''select genre'', ''ilike sci-fi''])
     \<in> set (steps_of book_services ''I like sci-fi movies'' [])
   \<and> has_fields (hd book_table) = False
   \<and> (\<exists>k\<in>{''title'', ''author'', ''director'', ''genre''}.
        run book_services ''I like sci-fi movies'' []
          = (Inl (KeyError k), [''invoke'', ''select genre'', ''ilike sci-fi'']))
   \<and> run book_services ''I like sci-fi movies'' []
       = (Inl (KeyError ''director''), [''invoke'', ''select genre'', ''ilike sci-fi''])"
proof -
  define stF where "stF =
    \<lparr>user_input = ''I like sci-fi movies'',
     user_preferences = ''The user likes Sci-Fi movies and fantasy books.'',
     retrieved_items = book_table, filtered_recommendations = [], final_response = []\<rparr>"
  have s: "(Filtering, stF, [''invoke'', ''select genre'', ''ilike sci-fi''])
     \<in> set (steps_of book_services ''I like sci-fi movies'' [])"
    unfolding stF_def by code_simp
  have h: "has_fields (hd book_table) = False"
    by (simp add: book_table_def has_fields_def)
  have m: "\<exists>item\<in>set (retrieved_items stF). \<not> has_fields item"
    by (simp add: stF_def book_table_def has_fields_def)
  have v: "run book_services ''I like sci-fi movies'' []
       = (Inl (KeyError ''director''), [''invoke'', ''select genre'', ''ilike sci-fi''])"
    by code_simp
  from filtering_raises_on_missing_field[where svc = book_services and st = stF
      and w = "[''invoke'', ''select genre'', ''ilike sci-fi'']",
      THEN conjunct2, THEN conjunct2, THEN conjunct2, THEN conjunct1, rule_format, OF m]
  obtain k where k: "k \<in> {''title'', ''author'', ''director'', ''genre''}"
    and r: "\<forall>inp w0. (Filtering, stF, [''invoke'', ''select genre'', ''ilike sci-fi''])
          \<in> set (steps_of book_services inp w0) \<longrightarrow>
        get_state book_services inp w0
          = (Inl (KeyError k), [''invoke'', ''select genre'', ''ilike sci-fi''])
        \<and> run book_services inp w0
          = (Inl (KeyError k), [''invoke'', ''select genre'', ''ilike sci-fi''])"
    by blast
  from r s have "run book_services ''I like sci-fi movies'' []
          = (Inl (KeyError k), [''invoke'', ''select genre'', ''ilike sci-fi''])"
    by blast
  with k have e: "\<exists>k\<in>{''title'', ''author'', ''director'', ''genre''}.
        run book_services ''I like sci-fi movies'' []
          = (Inl (KeyError k), [''invoke'', ''select genre'', ''ilike sci-fi''])"
    by blast
  show ?thesis
    by (intro conjI) (rule s[unfolded stF_def], rule h, rule e, rule v)
qed

section \<open>Failures of the services\<close>




section \<open>The empty input\<close>

text \<open>
  C5, as amended. For the empty input, when the call of the language model in User
  Interaction fails or returns the empty text, \<open>user_preferences\<close> is empty, the run goes
  from User Interaction straight to Final Response, \<open>retrieved_items\<close> and
  \<open>filtered_recommendations\<close> stay empty, and \<^verbatim>\<open>run\<close> returns a value and no error: the
  text that the model returns in Final Response for the empty recommendations, and
  the empty text when that call fails. When the model returns a text that is not empty
  for the empty input, \<open>user_preferences\<close> is that text and the run goes on to Retrieval.
\<close>

theorem empty_input_fail_open:
  "(isl (fst (get_response svc user_interaction_prompt [] w))
      \<or> fst (get_response svc user_interaction_prompt [] w) = Inr [] \<longrightarrow>
      (\<exists>stT wT. get_state svc [] w = (Inr stT, wT)
         \<and> run svc [] w = (Inr (final_response stT), wT)
         \<and> user_preferences stT = [] \<and> retrieved_items stT = []
         \<and> filtered_recommendations stT = []
         \<and> map fst (steps_of svc [] w) = [User_Interaction, Final_Response]
         \<and> run svc [] w =
             (case get_response svc final_response_prompt ''Here are the recommendations: ''
                     (snd (get_response svc user_interaction_prompt [] w)) of
                (Inl e, w') \<Rightarrow> (Inr [], w')
              | (Inr r, w') \<Rightarrow> (Inr r, w'))))
   \<and> (\<forall>p. fst (get_response svc user_interaction_prompt [] w) = Inr p \<longrightarrow> p \<noteq> [] \<longrightarrow>
        take 2 (steps_of svc [] w)
          = [(User_Interaction, initial_state [], w),
             (Retrieval, (initial_state [])\<lparr>user_preferences := p\<rparr>,
              snd (get_response svc user_interaction_prompt [] w))])"
proof -
  obtain r1 w1 where g: "get_response svc user_interaction_prompt [] w = (r1, w1)"
    by (cases "get_response svc user_interaction_prompt [] w")
  have ip: "user_preferences (initial_state []) = []" "retrieved_items (initial_state []) = []"
    "filtered_recommendations (initial_state []) = []" "final_response (initial_state []) = []"
    by (simp_all add: initial_state_def)
  have a: "\<exists>stT wT. get_state svc [] w = (Inr stT, wT)
         \<and> run svc [] w = (Inr (final_response stT), wT)
         \<and> user_preferences stT = [] \<and> retrieved_items stT = []
         \<and> filtered_recommendations stT = []
         \<and> map fst (steps_of svc [] w) = [User_Interaction, Final_Response]
         \<and> run svc [] w =
             (case get_response svc final_response_prompt ''Here are the recommendations: ''
                     (snd (get_response svc user_interaction_prompt [] w)) of
                (Inl e, w') \<Rightarrow> (Inr [], w')
              | (Inr r, w') \<Rightarrow> (Inr r, w'))"
    if h: "isl (fst (get_response svc user_interaction_prompt [] w))
      \<or> fst (get_response svc user_interaction_prompt [] w) = Inr []"
  proof -
    have u: "user_interaction_agent svc (initial_state []) w = (Inr (initial_state []), w1)"
    proof (cases r1)
      case (Inl e)
      with g show ?thesis
        by (simp add: user_interaction_agent_def user_interaction_try_def initial_state_def)
    next
      case (Inr p)
      with h g have "p = []" by simp
      with Inr g show ?thesis
        by (simp add: user_interaction_agent_def user_interaction_try_def initial_state_def)
    qed
    have d: "drive svc entry_point (initial_state []) w
        = ([(User_Interaction, initial_state [], w), (Final_Response, initial_state [], w1)],
           final_response_agent svc (initial_state []) w1)"
      using u
      by (simp add: entry_point_def drive_final_eq ip
          drive.simps[of svc User_Interaction "initial_state []" w])
    obtain r2 w2 where f: "get_response svc final_response_prompt
        ''Here are the recommendations: '' w1 = (r2, w2)"
      by (cases "get_response svc final_response_prompt ''Here are the recommendations: '' w1")
    show ?thesis
    proof (cases r2)
      case (Inl e)
      with f have "final_response_agent svc (initial_state []) w1 = (Inr (initial_state []), w2)"
        by (simp add: final_response_agent_def final_response_try_def initial_state_def)
      with d f g Inl show ?thesis
        by (simp add: get_state_def run_def invoke_def steps_of_def ip)
    next
      case (Inr r)
      with f have "final_response_agent svc (initial_state []) w1
          = (Inr ((initial_state [])\<lparr>final_response := r\<rparr>), w2)"
        by (simp add: final_response_agent_def final_response_try_def initial_state_def)
      with d f g Inr show ?thesis
        by (simp add: get_state_def run_def invoke_def steps_of_def ip)
    qed
  qed
  have b: "take 2 (steps_of svc [] w)
          = [(User_Interaction, initial_state [], w),
             (Retrieval, (initial_state [])\<lparr>user_preferences := p\<rparr>,
              snd (get_response svc user_interaction_prompt [] w))]"
    if h: "fst (get_response svc user_interaction_prompt [] w) = Inr p" and n: "p \<noteq> []" for p
  proof -
    have u: "user_interaction_agent svc (initial_state []) w
        = (Inr ((initial_state [])\<lparr>user_preferences := p\<rparr>), w1)"
      using h g
      by (simp add: user_interaction_agent_def user_interaction_try_def initial_state_def)
    obtain rest where r: "fst (drive svc Retrieval ((initial_state [])\<lparr>user_preferences := p\<rparr>) w1)
        = (Retrieval, (initial_state [])\<lparr>user_preferences := p\<rparr>, w1) # rest"
      using drive_steps_hd[of svc Retrieval "(initial_state [])\<lparr>user_preferences := p\<rparr>" w1]
      by blast
    have "fst (drive svc entry_point (initial_state []) w)
        = (User_Interaction, initial_state [], w)
          # (Retrieval, (initial_state [])\<lparr>user_preferences := p\<rparr>, w1) # rest"
      using u n r
      by (auto simp: entry_point_def drive.simps[of svc User_Interaction "initial_state []" w]
          split: prod.splits)
    with g show ?thesis by (simp add: steps_of_def)
  qed
  have a': "isl (fst (get_response svc user_interaction_prompt [] w))
      \<or> fst (get_response svc user_interaction_prompt [] w) = Inr [] \<longrightarrow>
      (\<exists>stT wT. get_state svc [] w = (Inr stT, wT)
         \<and> run svc [] w = (Inr (final_response stT), wT)
         \<and> user_preferences stT = [] \<and> retrieved_items stT = []
         \<and> filtered_recommendations stT = []
         \<and> map fst (steps_of svc [] w) = [User_Interaction, Final_Response]
         \<and> run svc [] w =
             (case get_response svc final_response_prompt ''Here are the recommendations: ''
                     (snd (get_response svc user_interaction_prompt [] w)) of
                (Inl e, w') \<Rightarrow> (Inr [], w')
              | (Inr r, w') \<Rightarrow> (Inr r, w')))"
    by (rule impI) (rule a)
  have b': "\<forall>p. fst (get_response svc user_interaction_prompt [] w) = Inr p \<longrightarrow> p \<noteq> [] \<longrightarrow>
        take 2 (steps_of svc [] w)
          = [(User_Interaction, initial_state [], w),
             (Retrieval, (initial_state [])\<lparr>user_preferences := p\<rparr>,
              snd (get_response svc user_interaction_prompt [] w))]"
    by (intro allI impI) (rule b)
  show ?thesis
    by (rule conjI) (rule a', rule b')
qed

theorem empty_input_fail_open_witness:
  "isl (fst (get_response strict_services user_interaction_prompt [] []))
   \<and> (\<exists>stT wT. get_state strict_services [] [] = (Inr stT, wT)
         \<and> user_preferences stT = []
         \<and> map fst (steps_of strict_services [] []) = [User_Interaction, Final_Response])
   \<and> run strict_services [] []
       = (Inr ''You may enjoy Dune and The Hobbit.'', [''invoke'', ''invoke''])
   \<and> run outage_services [] [] = (Inr [], [''invoke'', ''invoke''])"
proof -
  have h: "isl (fst (get_response strict_services user_interaction_prompt [] []))"
    by code_simp
  then have h': "isl (fst (get_response strict_services user_interaction_prompt [] []))
      \<or> fst (get_response strict_services user_interaction_prompt [] []) = Inr []"
    by (rule disjI1)
  from empty_input_fail_open[where svc = strict_services and w = "[]", THEN conjunct1,
      rule_format, OF h']
  obtain stT wT where "get_state strict_services [] [] = (Inr stT, wT)"
    "user_preferences stT = []"
    "map fst (steps_of strict_services [] []) = [User_Interaction, Final_Response]"
    by auto
  then have e: "\<exists>stT wT. get_state strict_services [] [] = (Inr stT, wT)
         \<and> user_preferences stT = []
         \<and> map fst (steps_of strict_services [] []) = [User_Interaction, Final_Response]"
    by (intro exI conjI)
  have v1: "run strict_services [] []
       = (Inr ''You may enjoy Dune and The Hobbit.'', [''invoke'', ''invoke''])"
    by code_simp
  have v2: "run outage_services [] [] = (Inr [], [''invoke'', ''invoke''])"
    by code_simp
  show ?thesis
    by (intro conjI) (rule h, rule e, rule v1, rule v2)
qed

theorem empty_input_counterexample:
  "map_sum id user_preferences (fst (get_state chatty_services [] []))
     = Inr ''Please tell me what you like.''
   \<and> map fst (steps_of chatty_services [] []) = [User_Interaction, Retrieval, Final_Response]
   \<and> run chatty_services [] []
     = (Inr ''Please tell me what you like.'', [''invoke'', ''select genre'', ''invoke''])"
proof -
  have a: "map_sum id user_preferences (fst (get_state chatty_services [] []))
     = Inr ''Please tell me what you like.''"
    by code_simp
  have b: "map fst (steps_of chatty_services [] []) = [User_Interaction, Retrieval, Final_Response]"
    by code_simp
  have c: "run chatty_services [] []
     = (Inr ''Please tell me what you like.'', [''invoke'', ''select genre'', ''invoke''])"
    by code_simp
  show ?thesis
    by (intro conjI) (rule a, rule b, rule c)
qed

end
